(* ===== verification/Prefs_Prelude.thy ===== *)
theory Prefs_Prelude
  imports Main "HOL-Library.Word"
begin

text \<open>
  Shared vocabulary of the preferences development: the machine types the Rust code
  uses (\<open>i64\<close>, \<open>u64\<close>, \<open>usize\<close> and the bit pattern of an \<open>f64\<close>, all as
  \<open>64 word\<close>), the collections of evaluation rules the component theories fill,
  and the Rust iterator adaptors that several components use:
  \<open>collect::<Result<Vec<_>, _>>\<close>, \<open>collect::<Option<Vec<_>>>\<close>, and the
  building of a \<open>HashMap\<close> from an iterator of pairs (the last pair for a key wins).
\<close>

type_synonym i64 = "64 word"
type_synonym u64 = "64 word"
type_synonym usize = "64 word"

text \<open>An \<open>f64\<close> is kept as its IEEE-754 binary64 bit pattern.\<close>

type_synonym f64 = "64 word"

named_theorems result_simps "evaluation rules of the error-returning operations"
named_theorems tree_simps "lookup and update rules of the nested preference value"

definition i64_max :: u64 where
  "i64_max = 0x7FFFFFFFFFFFFFFF"

subsection \<open>Collecting an iterator of results\<close>

text \<open>
  \<open>iter.map(f).collect::<Result<Vec<_>, E>>()\<close>: the elements are visited in order
  and the first \<open>Err\<close> is returned; later elements are not visited.
\<close>

fun collect_result :: "('a \<Rightarrow> 'e + 'b) \<Rightarrow> 'a list \<Rightarrow> 'e + 'b list" where
  "collect_result f [] = Inr []"
| "collect_result f (x # xs) =
     (case f x of
        Inl e \<Rightarrow> Inl e
      | Inr y \<Rightarrow> (case collect_result f xs of Inl e \<Rightarrow> Inl e | Inr ys \<Rightarrow> Inr (y # ys)))"

text \<open>\<open>iter.map(f).collect::<Option<Vec<_>>>()\<close>: \<open>None\<close> as soon as one element fails.\<close>

fun collect_option :: "('a \<Rightarrow> 'b option) \<Rightarrow> 'a list \<Rightarrow> 'b list option" where
  "collect_option f [] = Some []"
| "collect_option f (x # xs) =
     (case f x of
        None \<Rightarrow> None
      | Some y \<Rightarrow> (case collect_option f xs of None \<Rightarrow> None | Some ys \<Rightarrow> Some (y # ys)))"

text \<open>\<open>Iterator::flatten\<close> over \<open>Option\<close> items: the \<open>Some\<close> values in order.\<close>

fun flatten_options :: "'a option list \<Rightarrow> 'a list" where
  "flatten_options [] = []"
| "flatten_options (None # xs) = flatten_options xs"
| "flatten_options (Some x # xs) = x # flatten_options xs"

text \<open>\<open>HashMap::from_iter\<close>: later pairs overwrite earlier ones with the same key.\<close>

definition hashmap_of :: "('k \<times> 'v) list \<Rightarrow> 'k \<rightharpoonup> 'v" where
  "hashmap_of kvs = map_of (rev kvs)"

subsection \<open>Lemmas on the adaptors\<close>

text \<open>The congruence rule lets recursive definitions collect over their own subterms.\<close>

lemma collect_option_cong [fundef_cong]:
  "xs = ys \<Longrightarrow> (\<And>x. x \<in> set ys \<Longrightarrow> f x = g x) \<Longrightarrow> collect_option f xs = collect_option g ys"
  by (induction ys arbitrary: xs) (auto split: option.splits)


lemma collect_result_Inr_iff [result_simps]:
  "collect_result f xs = Inr ys \<longleftrightarrow> map f xs = map Inr ys"
proof
  show "collect_result f xs = Inr ys \<Longrightarrow> map f xs = map Inr ys"
    by (induction xs arbitrary: ys) (auto split: sum.splits)
  show "map f xs = map Inr ys \<Longrightarrow> collect_result f xs = Inr ys"
    by (induction xs arbitrary: ys) (auto simp: map_eq_Cons_conv)
qed

lemma map_eq_map_Inr_iff:
  "map f xs = map Inr ys \<longleftrightarrow> list_all (\<lambda>x. \<not> isl (f x)) xs \<and> ys = map (\<lambda>x. projr (f x)) xs"
proof (induction xs arbitrary: ys)
  case (Cons x xs)
  then show ?case
    by (cases ys; cases "f x") auto
qed simp

lemma collect_result_isl_iff [result_simps]:
  "isl (collect_result f xs) \<longleftrightarrow> (\<exists>x \<in> set xs. isl (f x))"
  by (induction xs) (auto split: sum.splits)

lemma collect_result_first_Inl:
  "(\<forall>a \<in> set as. \<not> isl (f a)) \<Longrightarrow> f x = Inl e \<Longrightarrow> collect_result f (as @ x # bs) = Inl e"
  by (induction as) (auto split: sum.splits)

lemma collect_result_Inl_member:
  "collect_result f xs = Inl e \<Longrightarrow> \<exists>x \<in> set xs. f x = Inl e"
  by (induction xs) (auto split: sum.splits)

lemma collect_option_None_iff [simp]:
  "collect_option f xs = None \<longleftrightarrow> (\<exists>x \<in> set xs. f x = None)"
  by (induction xs) (auto split: option.splits)

lemma collect_option_Some_defined:
  "collect_option f xs = Some ys \<Longrightarrow> x \<in> set xs \<Longrightarrow> f x \<noteq> None"
  by (induction xs arbitrary: ys) (auto split: option.splits)

lemma collect_option_map:
  "(\<And>x. x \<in> set xs \<Longrightarrow> f (g x) = Some x) \<Longrightarrow> collect_option f (map g xs) = Some xs"
  by (induction xs) auto

lemma collect_option_Some_iff:
  "collect_option f xs = Some ys \<longleftrightarrow> map f xs = map Some ys"
proof
  show "collect_option f xs = Some ys \<Longrightarrow> map f xs = map Some ys"
    by (induction xs arbitrary: ys) (auto split: option.splits)
  show "map f xs = map Some ys \<Longrightarrow> collect_option f xs = Some ys"
    by (induction xs arbitrary: ys) (auto simp: map_eq_Cons_conv)
qed

lemma map_of_map_snd [simp]:
  "map_of (map (\<lambda>(g, n). (g, h g n)) fs) f = map_option (h f) (map_of fs f)"
  by (induction fs) auto

lemma hashmap_of_distinct [simp]:
  "distinct (map fst xs) \<Longrightarrow> (x, y) \<in> set xs \<Longrightarrow> hashmap_of xs x = Some y"
  unfolding hashmap_of_def by (intro map_of_is_SomeI) (simp_all flip: rev_map)

lemma hashmap_of_None_iff: "hashmap_of xs x = None \<longleftrightarrow> x \<notin> fst ` set xs"
  by (simp add: hashmap_of_def map_of_eq_None_iff)

lemma length_filter_pos: "i < length xs \<Longrightarrow> P (xs ! i) \<Longrightarrow> 0 < length (filter P xs)"
  by (metis filter_empty_conv length_greater_0_conv nth_mem)

lemma length_filter_list_update:
  "i < length xs \<Longrightarrow>
     length (filter P (xs[i := x])) =
       length (filter P xs) - (if P (xs ! i) then 1 else 0) + (if P x then 1 else 0)"
proof (induction xs arbitrary: i)
  case (Cons y ys)
  then show ?case
    by (cases i) (auto dest: length_filter_pos [of _ ys P])
qed simp

lemma length_filter_two:
  assumes "i < length xs" and "j < length xs" and "i \<noteq> j" and "P (xs ! i)" and "P (xs ! j)"
  shows "2 \<le> length (filter P xs)"
proof -
  have "{i, j} \<subseteq> {k. k < length xs \<and> P (xs ! k)}"
    using assms by auto
  then have "card {i, j} \<le> card {k. k < length xs \<and> P (xs ! k)}"
    by (rule card_mono [rotated]) simp
  then show ?thesis
    using assms(3) by (simp add: length_filter_conv_card)
qed

lemma list_all_list_update [intro]: "list_all P xs \<Longrightarrow> P x \<Longrightarrow> list_all P (xs[i := x])"
  by (auto simp: list_all_iff dest: set_update_subset_insert [THEN subsetD])

lemma length_filter_pos_index: "0 < length (filter P xs) \<Longrightarrow> \<exists>j < length xs. P (xs ! j)"
  by (metis filter_empty_conv in_set_conv_nth length_greater_0_conv)

lemma sum_list_map_update_less:
  "i < length xs \<Longrightarrow> (f x :: nat) < f (xs ! i) \<Longrightarrow> sum_list (map f (xs[i := x])) < sum_list (map f xs)"
proof (induction xs arbitrary: i)
  case (Cons y ys)
  then show ?case
    by (cases i) auto
qed simp

end
