(* ===== verification/Json.thy ===== *)
theory Json
  imports Prefs_Prelude
begin

unbundle bit_operations_syntax

text \<open>
  The parsed-value tree of the external JSON library (\<open>serde_json::Value\<close>), which
  \<open>prefs.rs\<close> consumes in \<open>read_prefs_map\<close> and through typed deserialisation.
  A JSON number keeps serde_json's three representations: a non-negative integer as
  \<open>u64\<close>, a negative one as \<open>i64\<close>, anything else as an \<open>f64\<close>. An object keeps its
  members in document order. The accessors \<open>is_i64\<close>, \<open>as_i64\<close>, \<open>is_f64\<close> and
  \<open>as_f64\<close> follow serde_json's \<open>Number\<close>; \<open>as_f64\<close> of an integer is Rust's
  \<open>as f64\<close> cast, rounding to nearest with ties to even (\<open>f64_of_int\<close>).
\<close>

datatype json_number = PosInt u64 | NegInt i64 | JFloat f64

datatype json =
    JNull
  | JBool bool
  | JNumber json_number
  | JString string
  | JArray "json list"
  | JObject "(string \<times> json) list"

definition number_is_i64 :: "json_number \<Rightarrow> bool" where
  "number_is_i64 n = (case n of PosInt v \<Rightarrow> v \<le> i64_max | NegInt _ \<Rightarrow> True | JFloat _ \<Rightarrow> False)"

definition number_as_i64 :: "json_number \<Rightarrow> i64 option" where
  "number_as_i64 n =
     (case n of
        PosInt v \<Rightarrow> if v \<le> i64_max then Some v else None
      | NegInt v \<Rightarrow> Some v
      | JFloat _ \<Rightarrow> None)"

definition number_is_f64 :: "json_number \<Rightarrow> bool" where
  "number_is_f64 n = (case n of JFloat _ \<Rightarrow> True | _ \<Rightarrow> False)"

subsection \<open>Integer to binary64 conversion (Rust's \<open>as f64\<close>)\<close>

fun bit_length :: "nat \<Rightarrow> nat" where
  "bit_length n = (if n = 0 then 0 else Suc (bit_length (n div 2)))"

declare bit_length.simps [simp del]

definition round_half_even :: "nat \<Rightarrow> nat \<Rightarrow> nat" where
  "round_half_even m s =
     (let q = m div 2 ^ s; r = m mod 2 ^ s; h = 2 ^ s div 2
      in if 0 < s \<and> (h < r \<or> (r = h \<and> odd q)) then q + 1 else q)"

text \<open>
  Significand and unbiased exponent of a positive magnitude: a 53-bit significand
  \<open>sig\<close> with \<open>2^52 \<le> sig < 2^53\<close> and the exponent of its leading bit.
\<close>

definition f64_normalise :: "nat \<Rightarrow> nat \<times> nat" where
  "f64_normalise m =
     (let b = bit_length m
      in if b \<le> 53 then (m * 2 ^ (53 - b), b - 1)
         else (let q = round_half_even m (b - 53)
               in if q = 2 ^ 53 then (2 ^ 52, b) else (q, b - 1)))"

definition f64_of_int :: "int \<Rightarrow> f64" where
  "f64_of_int i =
     (if i = 0 then 0
      else (let (sig, e) = f64_normalise (nat \<bar>i\<bar>)
            in (if i < 0 then 0x8000000000000000 else 0)
               + word_of_nat ((e + 1023) * 2 ^ 52 + (sig - 2 ^ 52))))"

definition number_as_f64 :: "json_number \<Rightarrow> f64 option" where
  "number_as_f64 n =
     (case n of
        PosInt v \<Rightarrow> Some (f64_of_int (uint v))
      | NegInt v \<Rightarrow> Some (f64_of_int (sint v))
      | JFloat f \<Rightarrow> Some f)"

text \<open>A binary64 pattern is finite when its exponent field is not all ones.\<close>

definition f64_is_finite :: "f64 \<Rightarrow> bool" where
  "f64_is_finite f = (drop_bit 52 f AND 0x7FF \<noteq> 0x7FF)"

subsection \<open>Building numbers from Rust values\<close>

text \<open>\<open>Number::from(i64)\<close>: a negative value is stored as \<open>NegInt\<close>, others as \<open>PosInt\<close>.\<close>

definition number_from_i64 :: "i64 \<Rightarrow> json_number" where
  "number_from_i64 i = (if sint i < 0 then NegInt i else PosInt i)"

text \<open>\<open>Value::from(f64)\<close>: \<open>Number::from_f64\<close> rejects NaN and the infinities, which become \<open>null\<close>.\<close>

definition json_from_f64 :: "f64 \<Rightarrow> json" where
  "json_from_f64 f = (if f64_is_finite f then JNumber (JFloat f) else JNull)"

subsection \<open>Lemmas\<close>

text \<open>Closed conversions evaluate by \<open>simp\<close> with these equations.\<close>

lemmas f64_of_int_eval = f64_of_int_def f64_normalise_def round_half_even_def bit_length.simps

lemma number_as_i64_Some_iff:
  "(\<exists>v. number_as_i64 n = Some v) \<longleftrightarrow> number_is_i64 n"
  by (simp add: number_as_i64_def number_is_i64_def split: json_number.splits)

lemma i64_max_unat: "unat i64_max = 2 ^ 63 - 1"
  by (simp add: i64_max_def)

lemma i64_max_le_iff: "v \<le> i64_max \<longleftrightarrow> unat v < 2 ^ 63"
  using i64_max_unat by (simp add: word_le_nat_alt) linarith

lemma sint_neg_iff_unat: "sint v < 0 \<longleftrightarrow> 2 ^ 63 \<le> unat v" for v :: "64 word"
proof -
  have "sint v < 0 \<longleftrightarrow> bit v 63"
    using bit_last_iff [of v] by simp
  also have "\<dots> \<longleftrightarrow> drop_bit 63 v \<noteq> 0"
    using drop_bit_eq_zero_iff_not_bit_last [of v] by simp
  also have "\<dots> \<longleftrightarrow> unat (drop_bit 63 v) \<noteq> 0"
    by (simp only: unat_0_iff)
  also have "\<dots> \<longleftrightarrow> drop_bit 63 (unat v) \<noteq> 0"
    by (simp only: unat_drop_bit_eq)
  also have "\<dots> \<longleftrightarrow> unat v div 2 ^ 63 \<noteq> 0"
    by (simp only: drop_bit_eq_div)
  also have "\<dots> \<longleftrightarrow> 2 ^ 63 \<le> unat v"
    by (auto simp: div_eq_0_iff)
  finally show ?thesis .
qed

lemma i64_max_le_iff_sint: "v \<le> i64_max \<longleftrightarrow> 0 \<le> sint v"
  using i64_max_le_iff [of v] sint_neg_iff_unat [of v] by linarith

lemma number_as_i64_from_i64 [simp]: "number_as_i64 (number_from_i64 i) = Some i"
  by (auto simp: number_as_i64_def number_from_i64_def i64_max_le_iff_sint)

lemma number_is_i64_from_i64 [simp]: "number_is_i64 (number_from_i64 i)"
  using number_as_i64_Some_iff number_as_i64_from_i64 by blast

lemma number_JFloat [simp]:
  "\<not> number_is_i64 (JFloat f)" "number_is_f64 (JFloat f)" "number_as_f64 (JFloat f) = Some f"
  by (simp_all add: number_is_i64_def number_is_f64_def number_as_f64_def)

lemma number_is_f64_from_i64 [simp]: "\<not> number_is_f64 (number_from_i64 i)"
  by (simp add: number_is_f64_def number_from_i64_def)

end
