(* ===== verification/PrefValue.thy ===== *)
theory PrefValue
  imports Json
begin

text \<open>
  The dynamic preference value (\<open>PrefValue\<close> of \<open>pref_util\<close>, re-exported by
  \<open>prefs.rs\<close>), its conversions from and to the JSON tree, and the error type
  \<open>PrefError\<close>. \<open>pref_util\<close> is not among the sources, so these definitions follow
  the specification (sections 3, 4.1 and 7). The message of \<open>InvalidValue\<close> is
  \<open>format!("Invalid value: {}", v)\<close>, a function of the offending JSON value \<open>v\<close>:
  the model keeps \<open>v\<close> itself.
\<close>

datatype pref_value =
    Bool bool
  | IntV i64
  | Float f64
  | Str string
  | Array "pref_value list"

datatype pref_error =
    JsonParseErr
  | InvalidValue json
  | NoSuchPref string
  | TypeMismatch string

text \<open>
  \<open>from_json_value\<close>: a boolean, an integer that fits \<open>i64\<close>, a float and a string
  convert to the matching kind; an array converts only if every element does; \<open>null\<close>,
  an object and an integer above \<open>i64::MAX\<close> do not convert.
\<close>

fun from_json_value :: "json \<Rightarrow> pref_value option" where
  "from_json_value (JBool b) = Some (Bool b)"
| "from_json_value (JNumber n) =
     (if number_is_i64 n then map_option IntV (number_as_i64 n)
      else if number_is_f64 n then map_option Float (number_as_f64 n)
      else None)"
| "from_json_value (JString s) = Some (Str s)"
| "from_json_value (JArray vs) = map_option Array (collect_option from_json_value vs)"
| "from_json_value JNull = None"
| "from_json_value (JObject _) = None"

fun to_json_value :: "pref_value \<Rightarrow> json" where
  "to_json_value (Bool b) = JBool b"
| "to_json_value (IntV i) = JNumber (number_from_i64 i)"
| "to_json_value (Float f) = json_from_f64 f"
| "to_json_value (Str s) = JString s"
| "to_json_value (Array vs) = JArray (map to_json_value vs)"

text \<open>A value is finite when none of its floats is a NaN or an infinity.\<close>

fun pref_value_finite :: "pref_value \<Rightarrow> bool" where
  "pref_value_finite (Float f) = f64_is_finite f"
| "pref_value_finite (Array vs) = list_all pref_value_finite vs"
| "pref_value_finite _ = True"

subsection \<open>Lemmas\<close>

lemma from_json_value_array_iff:
  "from_json_value (JArray vs) \<noteq> None \<longleftrightarrow> (\<forall>v \<in> set vs. from_json_value v \<noteq> None)"
  by auto

subsection \<open>Round trip through the JSON tree\<close>

text \<open>
  Converting a preference value to the JSON tree and back gives the value again,
  for every value whose floats are finite (booleans, every \<open>i64\<close>, finite floats,
  strings, and arrays of such values, nested or not).
\<close>

lemma from_json_to_json_roundtrip:
  "pref_value_finite v \<Longrightarrow> from_json_value (to_json_value v) = Some v"
proof (induction v)
  case (Array vs)
  then show ?case
    by (auto simp: list_all_iff intro!: collect_option_map)
qed (simp_all add: json_from_f64_def)

lemma from_json_to_json_roundtrip_example:
  "pref_value_finite (Array [Float 0x3FF0000000000000, IntV (-5), Str ''a'']) \<and>
   from_json_value (to_json_value (Array [Float 0x3FF0000000000000, IntV (-5), Str ''a''])) =
     Some (Array [Float 0x3FF0000000000000, IntV (-5), Str ''a''])"
proof -
  have fin: "pref_value_finite (Array [Float 0x3FF0000000000000, IntV (-5), Str ''a''])"
    by (simp add: f64_is_finite_def)
  show ?thesis
    using from_json_to_json_roundtrip [OF fin] fin by simp
qed

text \<open>
  The round trip fails for a non-finite float: \<open>Value::from(f64::NAN)\<close> is \<open>null\<close>,
  which converts to no preference value.
\<close>

lemma nan_roundtrip_fails:
  "from_json_value (to_json_value (Float 0x7FF8000000000000)) = None"
  by (simp add: json_from_f64_def f64_is_finite_def)

end
