(* ===== verification/Store.thy ===== *)
theory Store
  imports PrefValue
begin

text \<open>
  The preferences store \<open>Preferences<'m, P>\<close> of \<open>pref_util\<close>, generic in the
  schema type \<open>P\<close> (here the type variable \<open>'p\<close>), and its accessor table. The
  store owns one value of the schema type and a reference to an immutable table from
  string keys to getter/setter pairs; \<open>get\<close>, \<open>set\<close> and \<open>set_all\<close> consult the table
  (specification section 4.3; \<open>pref_util\<close> is not among the sources).
  A setter that rejects a value because its kind does not match the field returns
  \<open>None\<close>; the store reports \<open>TypeMismatch\<close> and keeps its value.
  The operations that mutate return the new store with their result, since the Rust
  code mutates the shared value in place and returns only the result.

  The contract of the accessor table (\<open>table_lawful\<close>) is the interface between this
  generic store and a concrete schema: every setter keeps the schema value's invariant
  and is read back by its own getter, and setters of distinct keys leave the other
  keys' getters unchanged. \<open>Schema\<close> proves it for the table generated from the
  schema.
\<close>

record 'p accessor =
  getter :: "'p \<Rightarrow> pref_value"
  setter :: "'p \<Rightarrow> pref_value \<Rightarrow> 'p option"

type_synonym 'p accessor_table = "string \<rightharpoonup> 'p accessor"

record 'p preferences =
  user_prefs :: 'p
  accessors :: "'p accessor_table"

definition preferences_new :: "'p \<Rightarrow> 'p accessor_table \<Rightarrow> 'p preferences" where
  "preferences_new p tbl = \<lparr>user_prefs = p, accessors = tbl\<rparr>"

definition prefs_get :: "'p preferences \<Rightarrow> string \<Rightarrow> pref_error + pref_value" where
  "prefs_get s k =
     (case accessors s k of
        None \<Rightarrow> Inl (NoSuchPref k)
      | Some a \<Rightarrow> Inr (getter a (user_prefs s)))"

definition prefs_set ::
  "'p preferences \<Rightarrow> string \<Rightarrow> pref_value \<Rightarrow> 'p preferences \<times> (pref_error + unit)" where
  "prefs_set s k v =
     (case accessors s k of
        None \<Rightarrow> (s, Inl (NoSuchPref k))
      | Some a \<Rightarrow>
          (case setter a (user_prefs s) v of
             None \<Rightarrow> (s, Inl (TypeMismatch k))
           | Some p' \<Rightarrow> (s\<lparr>user_prefs := p'\<rparr>, Inr ())))"

text \<open>\<open>set_all\<close>: the entries are applied in order; the first failure is returned at once
  and the entries before it stay applied.\<close>

fun prefs_set_all ::
  "'p preferences \<Rightarrow> (string \<times> pref_value) list \<Rightarrow> 'p preferences \<times> (pref_error + unit)" where
  "prefs_set_all s [] = (s, Inr ())"
| "prefs_set_all s ((k, v) # kvs) =
     (let (s', r) = prefs_set s k v
      in case r of Inl e \<Rightarrow> (s', Inl e) | Inr _ \<Rightarrow> prefs_set_all s' kvs)"

subsection \<open>The accessor contract\<close>

definition accessor_lawful :: "('p \<Rightarrow> bool) \<Rightarrow> 'p accessor \<Rightarrow> bool" where
  "accessor_lawful valid a \<longleftrightarrow>
     (\<forall>p v p'. valid p \<longrightarrow> setter a p v = Some p' \<longrightarrow> valid p' \<and> getter a p' = v)"

definition accessors_independent :: "('p \<Rightarrow> bool) \<Rightarrow> 'p accessor \<Rightarrow> 'p accessor \<Rightarrow> bool" where
  "accessors_independent valid a b \<longleftrightarrow>
     (\<forall>p v p'. valid p \<longrightarrow> setter a p v = Some p' \<longrightarrow> getter b p' = getter b p)"

definition table_lawful :: "('p \<Rightarrow> bool) \<Rightarrow> 'p accessor_table \<Rightarrow> bool" where
  "table_lawful valid tbl \<longleftrightarrow>
     (\<forall>k a. tbl k = Some a \<longrightarrow> accessor_lawful valid a) \<and>
     (\<forall>k1 k2 a b. k1 \<noteq> k2 \<longrightarrow> tbl k1 = Some a \<longrightarrow> tbl k2 = Some b \<longrightarrow>
        accessors_independent valid a b)"

definition prefs_inv :: "('p \<Rightarrow> bool) \<Rightarrow> 'p preferences \<Rightarrow> bool" where
  "prefs_inv valid s \<longleftrightarrow> valid (user_prefs s) \<and> table_lawful valid (accessors s)"

subsection \<open>Evaluation rules\<close>

lemma prefs_set_cases [result_simps]:
  "accessors s k = None \<Longrightarrow> prefs_set s k v = (s, Inl (NoSuchPref k))"
  "accessors s k = Some a \<Longrightarrow> setter a (user_prefs s) v = None \<Longrightarrow>
     prefs_set s k v = (s, Inl (TypeMismatch k))"
  "accessors s k = Some a \<Longrightarrow> setter a (user_prefs s) v = Some p' \<Longrightarrow>
     prefs_set s k v = (s\<lparr>user_prefs := p'\<rparr>, Inr ())"
  by (simp_all add: prefs_set_def)

lemma prefs_set_Inr_iff:
  "prefs_set s k v = (s', Inr u) \<longleftrightarrow>
     (\<exists>a p'. accessors s k = Some a \<and> setter a (user_prefs s) v = Some p' \<and>
             s' = s\<lparr>user_prefs := p'\<rparr>)"
  by (auto simp: prefs_set_def split: option.splits)

lemma prefs_set_Inl_state:
  "prefs_set s k v = (s', Inl e) \<Longrightarrow> s' = s"
  by (auto simp: prefs_set_def split: option.splits)

lemma prefs_set_accessors [simp]: "accessors (fst (prefs_set s k v)) = accessors s"
  by (auto simp: prefs_set_def split: option.splits)

lemma prefs_set_all_accessors [simp]: "accessors (fst (prefs_set_all s kvs)) = accessors s"
proof (induction kvs arbitrary: s)
  case Nil
  then show ?case by simp
next
  case (Cons kv kvs)
  obtain k v where kv: "kv = (k, v)" by fastforce
  obtain s' r where sr: "prefs_set s k v = (s', r)" by fastforce
  have "accessors s' = accessors s"
    using prefs_set_accessors [of s k v] sr by simp
  with Cons.IH [of s'] sr kv show ?case
    by (cases r) auto
qed

lemma prefs_set_all_append [result_simps]:
  "prefs_set_all s (xs @ ys) =
     (case prefs_set_all s xs of (s', Inl e) \<Rightarrow> (s', Inl e) | (s', Inr _) \<Rightarrow> prefs_set_all s' ys)"
proof (induction xs arbitrary: s)
  case Nil
  then show ?case by simp
next
  case (Cons kv xs)
  obtain k v where kv: "kv = (k, v)" by fastforce
  obtain s' r where sr: "prefs_set s k v = (s', r)" by fastforce
  show ?case
    using Cons.IH [of s'] sr kv by (cases r) auto
qed

subsection \<open>Invariant\<close>

lemma table_lawful_set:
  "table_lawful valid tbl \<Longrightarrow> tbl k = Some a \<Longrightarrow> valid p \<Longrightarrow> setter a p v = Some p' \<Longrightarrow>
     valid p' \<and> getter a p' = v"
  unfolding table_lawful_def accessor_lawful_def by blast

lemma table_lawful_other:
  "table_lawful valid tbl \<Longrightarrow> k1 \<noteq> k2 \<Longrightarrow> tbl k1 = Some a \<Longrightarrow> tbl k2 = Some b \<Longrightarrow>
     valid p \<Longrightarrow> setter a p v = Some p' \<Longrightarrow> getter b p' = getter b p"
  unfolding table_lawful_def accessors_independent_def by blast

lemma prefs_set_preserves_inv:
  assumes "prefs_inv valid s"
  shows "prefs_inv valid (fst (prefs_set s k v))"
proof -
  obtain s' r where sr: "prefs_set s k v = (s', r)" by fastforce
  show ?thesis
  proof (cases r)
    case (Inl e)
    with sr have "s' = s" by (simp add: prefs_set_Inl_state)
    with assms sr show ?thesis by simp
  next
    case (Inr u)
    with sr obtain a p' where a: "accessors s k = Some a"
      and p': "setter a (user_prefs s) v = Some p'" and s': "s' = s\<lparr>user_prefs := p'\<rparr>"
      by (auto simp only: prefs_set_Inr_iff)
    have tl: "table_lawful valid (accessors s)" and vp: "valid (user_prefs s)"
      using assms by (simp_all add: prefs_inv_def)
    have "valid p'"
      using table_lawful_set [OF tl a vp p'] by (rule conjunct1)
    with assms sr s' show ?thesis
      by (simp add: prefs_inv_def)
  qed
qed

lemma prefs_set_all_preserves_inv_gen:
  "prefs_inv valid s \<Longrightarrow> prefs_inv valid (fst (prefs_set_all s kvs))"
proof (induction kvs arbitrary: s)
  case Nil
  then show ?case by simp
next
  case (Cons kv kvs)
  obtain k v where kv: "kv = (k, v)" by fastforce
  obtain s' r where sr: "prefs_set s k v = (s', r)" by fastforce
  have "prefs_inv valid s'"
    using prefs_set_preserves_inv [OF Cons.prems, of k v] sr by simp
  with Cons.IH [of s'] sr kv show ?case
    by (cases r) auto
qed

subsection \<open>Reading after writing\<close>

lemma prefs_set_get_gen:
  assumes "prefs_inv valid s" and "prefs_set s k v = (s', Inr u)"
  shows "prefs_get s' k = Inr v"
proof -
  obtain a p' where a: "accessors s k = Some a" and p': "setter a (user_prefs s) v = Some p'"
    and s': "s' = s\<lparr>user_prefs := p'\<rparr>"
    using assms(2) by (auto simp only: prefs_set_Inr_iff)
  have tl: "table_lawful valid (accessors s)" and vp: "valid (user_prefs s)"
    using assms(1) by (simp_all add: prefs_inv_def)
  have "getter a p' = v"
    using table_lawful_set [OF tl a vp p'] by (rule conjunct2)
  with a s' show ?thesis
    by (simp add: prefs_get_def)
qed

lemma prefs_set_other_gen:
  assumes "prefs_inv valid s" and "prefs_set s k v = (s', Inr u)" and "k' \<noteq> k"
  shows "prefs_get s' k' = prefs_get s k'"
proof -
  obtain a p' where a: "accessors s k = Some a" and p': "setter a (user_prefs s) v = Some p'"
    and s': "s' = s\<lparr>user_prefs := p'\<rparr>"
    using assms(2) by (auto simp only: prefs_set_Inr_iff)
  have tl: "table_lawful valid (accessors s)" and vp: "valid (user_prefs s)"
    using assms(1) by (simp_all add: prefs_inv_def)
  show ?thesis
  proof (cases "accessors s k'")
    case None
    with s' show ?thesis by (simp add: prefs_get_def)
  next
    case (Some b)
    have "getter b p' = getter b (user_prefs s)"
      using table_lawful_other [OF tl _ a Some vp p'] assms(3) by simp
    with Some s' show ?thesis
      by (simp add: prefs_get_def)
  qed
qed

lemma prefs_set_all_Inr_Cons:
  "prefs_set_all s ((k, v) # kvs) = (s', Inr u) \<Longrightarrow>
     \<exists>s1. prefs_set s k v = (s1, Inr ()) \<and> prefs_set_all s1 kvs = (s', Inr u)"
  by (auto split: prod.splits sum.splits)

lemma prefs_set_all_other:
  "prefs_inv valid s \<Longrightarrow> prefs_set_all s kvs = (s', Inr u) \<Longrightarrow> k \<notin> fst ` set kvs \<Longrightarrow>
     prefs_get s' k = prefs_get s k"
proof (induction kvs arbitrary: s)
  case Nil
  then show ?case by simp
next
  case (Cons kv kvs)
  obtain k1 v1 where kv: "kv = (k1, v1)" by fastforce
  obtain s1 where s1: "prefs_set s k1 v1 = (s1, Inr ())" and rest: "prefs_set_all s1 kvs = (s', Inr u)"
    using prefs_set_all_Inr_Cons Cons.prems(2) kv by blast
  have inv1: "prefs_inv valid s1"
    using prefs_set_preserves_inv [OF Cons.prems(1), of k1 v1] s1 by simp
  have "prefs_get s' k = prefs_get s1 k"
    using Cons.IH [OF inv1 rest] Cons.prems(3) by simp
  also have "\<dots> = prefs_get s k"
    using prefs_set_other_gen [OF Cons.prems(1) s1] Cons.prems(3) kv by simp
  finally show ?case .
qed

subsection \<open>Properties of \<open>set_all\<close>\<close>

text \<open>
  \<open>set_all\<close> stops at the first entry that fails: if the entries before it succeed,
  reaching the store \<open>s1\<close>, and that entry fails on \<open>s1\<close>, the call returns that entry's
  error with the store \<open>s1\<close>, so the earlier entries stay applied (no rollback) and the
  entries after it are not applied.
\<close>

lemma set_all_stops_at_first_error:
  assumes "prefs_set_all s kvs = (s1, Inr ())" and "prefs_set s1 k v = (s2, Inl e)"
  shows "prefs_set_all s (kvs @ (k, v) # rest) = (s1, Inl e)"
proof -
  have "s2 = s1"
    using prefs_set_Inl_state [OF assms(2)] .
  then show ?thesis
    using assms by (simp add: prefs_set_all_append)
qed

text \<open>
  When \<open>set_all\<close> succeeds on a store whose table meets the accessor contract, every
  key it was given reads back the value of the last entry for that key (a later entry for
  the same key overrides an earlier one, as the entries are applied in order).
\<close>

lemma prefs_set_all_reads_last:
  "prefs_inv valid s \<Longrightarrow> prefs_set_all s kvs = (s', Inr u) \<Longrightarrow> map_of (rev kvs) k = Some v \<Longrightarrow>
     prefs_get s' k = Inr v"
proof (induction kvs arbitrary: s)
  case Nil
  then show ?case by simp
next
  case (Cons kv kvs)
  obtain k1 v1 where kv: "kv = (k1, v1)" by fastforce
  obtain s1 where s1: "prefs_set s k1 v1 = (s1, Inr ())" and rest: "prefs_set_all s1 kvs = (s', Inr u)"
    using prefs_set_all_Inr_Cons Cons.prems(2) kv by blast
  have inv1: "prefs_inv valid s1"
    using prefs_set_preserves_inv [OF Cons.prems(1), of k1 v1] s1 by simp
  show ?case
  proof (cases "map_of (rev kvs) k")
    case (Some w)
    with Cons.prems(3) kv have "w = v"
      by simp
    with Cons.IH [OF inv1 rest] Some show ?thesis by simp
  next
    case None
    with Cons.prems(3) kv have k: "k = k1" and v: "v = v1"
      by (auto split: if_splits)
    from None have "k \<notin> fst ` set kvs"
      by (simp add: map_of_eq_None_iff)
    then have "prefs_get s' k = prefs_get s1 k"
      using prefs_set_all_other [OF inv1 rest] by simp
    also have "\<dots> = Inr v"
      using prefs_set_get_gen [OF Cons.prems(1) s1] k v by simp
    finally show ?thesis .
  qed
qed

end
