(* ===== verification/Schema.thy ===== *)
theory Schema
  imports Store "HOL-Library.Sublist"
begin

text \<open>
  The schema value and the accessor table generated from it. In \<open>prefs.rs\<close> the
  module \<open>gen\<close> declares the schema as nested structs with \<open>#[derive(Deserialize)]\<close>;
  each leaf field is a \<open>bool\<close>, an \<open>i64\<close>, a \<open>String\<close> or an \<open>[f64; 4]\<close>, and may
  carry \<open>#[serde(default)]\<close>, \<open>#[serde(default = "f")]\<close> or \<open>#[serde(rename = "k")]\<close>.
  The macro \<open>build_structs\<close> of \<open>servo_config_plugins\<close> turns this description into
  the type \<open>Prefs\<close> and the table \<open>PREF_ACCESSORS\<close> from external keys to
  getter/setter pairs; a leaf's key is its rename, or else its dotted path.

  Here a schema is a tree of \<open>Leaf\<close>s and \<open>Group\<close>s, a value of the schema type is a
  tree of the same shape (\<open>pnode\<close>: a struct is a \<open>PGroup\<close> of its named fields in
  declaration order), \<open>node_get\<close>/\<open>node_set\<close> read and write the field at a path (the
  static path \<open>prefs.a.b.c\<close>), \<open>conforms\<close> is the typing of a value against the
  schema, and \<open>pref_accessors\<close> is the generated table. The lemmas show that the
  table meets the store's accessor contract, that the leaf paths are distinct and none is
  a prefix of another, and hence that writes to distinct leaves commute.
\<close>

datatype field_ty = TyBool | TyI64 | TyF64 | TyString | TyF64Array nat

datatype field_default = NoDefault | DefaultTrait | DefaultFn string

datatype schema =
    Leaf string field_ty "string option" field_default
  | Group string "schema list"

fun schema_name :: "schema \<Rightarrow> string" where
  "schema_name (Leaf nm _ _ _) = nm"
| "schema_name (Group nm _) = nm"

fun is_float :: "pref_value \<Rightarrow> bool" where
  "is_float (Float _) = True"
| "is_float _ = False"

text \<open>The kind of value a field of each type holds; the setters reject every other kind.\<close>

fun has_type :: "field_ty \<Rightarrow> pref_value \<Rightarrow> bool" where
  "has_type TyBool (Bool _) = True"
| "has_type TyI64 (IntV _) = True"
| "has_type TyF64 (Float _) = True"
| "has_type TyString (Str _) = True"
| "has_type (TyF64Array n) (Array vs) = (length vs = n \<and> list_all is_float vs)"
| "has_type _ _ = False"

text \<open>\<open>Default::default()\<close> of each leaf type, used by \<open>#[serde(default)]\<close>.\<close>

fun default_of_type :: "field_ty \<Rightarrow> pref_value" where
  "default_of_type TyBool = Bool False"
| "default_of_type TyI64 = IntV 0"
| "default_of_type TyF64 = Float 0"
| "default_of_type TyString = Str []"
| "default_of_type (TyF64Array n) = Array (replicate n (Float 0))"

subsection \<open>Values of the schema type\<close>

datatype pnode = PLeaf pref_value | PGroup "(string \<times> pnode) list"

fun node_get :: "string list \<Rightarrow> pnode \<Rightarrow> pref_value option" where
  "node_get [] (PLeaf v) = Some v"
| "node_get (f # p) (PGroup fs) = (case map_of fs f of Some n \<Rightarrow> node_get p n | None \<Rightarrow> None)"
| "node_get _ _ = None"

fun node_set :: "string list \<Rightarrow> pref_value \<Rightarrow> pnode \<Rightarrow> pnode" where
  "node_set [] v (PLeaf _) = PLeaf v"
| "node_set (f # p) v (PGroup fs) =
     PGroup (map (\<lambda>(g, n). (g, if g = f then node_set p v n else n)) fs)"
| "node_set _ _ n = n"

fun conforms :: "schema \<Rightarrow> pnode \<Rightarrow> bool"
  and conforms_fields :: "schema list \<Rightarrow> (string \<times> pnode) list \<Rightarrow> bool" where
  "conforms (Leaf _ ty _ _) (PLeaf v) = has_type ty v"
| "conforms (Group _ cs) (PGroup fs) = conforms_fields cs fs"
| "conforms _ _ = False"
| "conforms_fields [] [] = True"
| "conforms_fields (c # cs) ((g, n) # fs) = (g = schema_name c \<and> conforms c n \<and> conforms_fields cs fs)"
| "conforms_fields _ _ = False"

text \<open>The value with every leaf at its type's default (the schema structs derive no
  \<open>Default\<close>; this value serves as a concrete inhabitant of the schema type).\<close>

fun default_node :: "schema \<Rightarrow> pnode" where
  "default_node (Leaf _ ty _ _) = PLeaf (default_of_type ty)"
| "default_node (Group _ cs) = PGroup (map (\<lambda>c. (schema_name c, default_node c)) cs)"

text \<open>Rust accepts a struct only if its field names are distinct.\<close>

fun names_distinct :: "schema \<Rightarrow> bool" where
  "names_distinct (Leaf _ _ _ _) = True"
| "names_distinct (Group _ cs) = (distinct (map schema_name cs) \<and> list_all names_distinct cs)"

subsection \<open>The generated accessor table\<close>

fun dotted :: "string list \<Rightarrow> string" where
  "dotted [] = []"
| "dotted [x] = x"
| "dotted (x # xs) = x @ ''.'' @ dotted xs"

text \<open>
  \<open>leaves pre c\<close>: one entry per leaf of \<open>c\<close>, with its external key, its path
  relative to the struct that holds \<open>c\<close>, and its type; \<open>pre\<close> is the dotted prefix
  of \<open>c\<close>'s parent, used for the default key.
\<close>

fun leaves :: "string list \<Rightarrow> schema \<Rightarrow> (string \<times> string list \<times> field_ty) list" where
  "leaves pre (Leaf nm ty rn _) =
     [(case rn of Some k \<Rightarrow> k | None \<Rightarrow> dotted (pre @ [nm]), [nm], ty)]"
| "leaves pre (Group nm cs) =
     map (\<lambda>(k, p, ty). (k, nm # p, ty)) (concat (map (leaves (pre @ [nm])) cs))"

definition root_leaves :: "schema list \<Rightarrow> (string \<times> string list \<times> field_ty) list" where
  "root_leaves sch = concat (map (leaves []) sch)"

definition field_accessor :: "string list \<Rightarrow> field_ty \<Rightarrow> pnode accessor" where
  "field_accessor path ty =
     \<lparr>getter = (\<lambda>t. the (node_get path t)),
      setter = (\<lambda>t v. if has_type ty v then Some (node_set path v t) else None)\<rparr>"

definition pref_accessors :: "schema list \<Rightarrow> pnode accessor_table" where
  "pref_accessors sch =
     hashmap_of (map (\<lambda>(k, p, ty). (k, field_accessor p ty)) (root_leaves sch))"

text \<open>The declared type of the leaf a key names.\<close>

definition pref_key_type :: "schema list \<Rightarrow> string \<rightharpoonup> field_ty" where
  "pref_key_type sch = hashmap_of (map (\<lambda>(k, p, ty). (k, ty)) (root_leaves sch))"

text \<open>The root struct has no name of its own.\<close>

definition prefs_conform :: "schema list \<Rightarrow> pnode \<Rightarrow> bool" where
  "prefs_conform sch t = conforms (Group [] sch) t"

definition schema_wf :: "schema list \<Rightarrow> bool" where
  "schema_wf sch \<longleftrightarrow>
     names_distinct (Group [] sch) \<and> distinct (map fst (root_leaves sch))"

subsection \<open>Reading and writing a path\<close>

lemma has_type_default [simp]: "has_type ty (default_of_type ty)"
  by (cases ty) (auto simp: list_all_iff)

lemma conforms_default_node: "conforms c (default_node c)"
proof (induction c)
  case (Group nm cs)
  have "conforms_fields cs' (map (\<lambda>c. (schema_name c, default_node c)) cs')"
    if "set cs' \<subseteq> set cs" for cs'
    using that Group.IH by (induction cs') auto
  then show ?case by simp
qed simp

lemma node_get_PLeaf [tree_simps]: "node_get q (PLeaf v) = (if q = [] then Some v else None)"
  by (cases q) auto

lemma node_get_node_set_same [tree_simps]:
  "node_get p t \<noteq> None \<Longrightarrow> node_get p (node_set p v t) = Some v"
proof (induction p v t rule: node_set.induct)
  case (2 f p v fs)
  then obtain n where n: "map_of fs f = Some n" and get: "node_get p n \<noteq> None"
    by (auto split: option.splits)
  have "(f, n) \<in> set fs"
    using n by (rule map_of_SomeD)
  with "2.IH" get have "node_get p (node_set p v n) = Some v"
    by blast
  with n show ?case by simp
qed auto

lemma node_get_node_set_other [tree_simps]:
  "node_get p t \<noteq> None \<Longrightarrow> node_get q t \<noteq> None \<Longrightarrow> p \<noteq> q \<Longrightarrow>
     node_get q (node_set p v t) = node_get q t"
proof (induction p v t arbitrary: q rule: node_set.induct)
  case (2 f p v fs)
  then obtain n where n: "map_of fs f = Some n" and get: "node_get p n \<noteq> None"
    by (auto split: option.splits)
  have mem: "(f, n) \<in> set fs"
    using n by (rule map_of_SomeD)
  show ?case
  proof (cases q)
    case Nil
    then show ?thesis by simp
  next
    case (Cons g q')
    show ?thesis
    proof (cases "g = f")
      case True
      with Cons "2.prems" n have "node_get q' n \<noteq> None" and "p \<noteq> q'"
        by auto
      with "2.IH" [OF mem refl refl get] have "node_get q' (node_set p v n) = node_get q' n"
        by blast
      with Cons True n show ?thesis by simp
    next
      case False
      with Cons show ?thesis by (simp add: option.map_ident)
    qed
  qed
qed (auto simp: node_get_PLeaf)

lemma leaves_path_head:
  "(k, p, ty) \<in> set (leaves pre c) \<Longrightarrow> \<exists>q. p = schema_name c # q"
  by (induction pre c rule: leaves.induct) auto

lemma conforms_fields_lookup:
  "conforms_fields cs fs \<Longrightarrow> distinct (map schema_name cs) \<Longrightarrow> c \<in> set cs \<Longrightarrow>
     \<exists>n. map_of fs (schema_name c) = Some n \<and> conforms c n"
proof (induction cs arbitrary: fs)
  case Nil
  then show ?case by simp
next
  case (Cons c' cs)
  then obtain g n fs' where fs: "fs = (g, n) # fs'"
    by (cases fs) auto
  show ?case
  proof (cases "c = c'")
    case True
    with Cons.prems fs show ?thesis by simp
  next
    case False
    with Cons.prems have "c \<in> set cs" by simp
    then have "schema_name c \<in> set (map schema_name cs)"
      by simp
    then have "schema_name c \<noteq> schema_name c'"
      using Cons.prems(2) by auto
    with Cons.IH [of fs'] Cons.prems fs \<open>c \<in> set cs\<close> show ?thesis by auto
  qed
qed

lemma leaves_readable:
  "conforms c n \<Longrightarrow> names_distinct c \<Longrightarrow> (k, p, ty) \<in> set (leaves pre c) \<Longrightarrow>
     \<exists>q v. p = schema_name c # q \<and> node_get q n = Some v \<and> has_type ty v"
proof (induction pre c arbitrary: n k p rule: leaves.induct)
  case (1 pre nm ty rn d)
  then show ?case by (cases n) auto
next
  case (2 pre nm cs)
  from "2.prems"(1) obtain fs where n: "n = PGroup fs" and cf: "conforms_fields cs fs"
    by (cases n) auto
  from "2.prems"(3) obtain c p' where c: "c \<in> set cs" and p: "p = nm # p'"
    and kp: "(k, p', ty) \<in> set (leaves (pre @ [nm]) c)"
    by auto
  from "2.prems"(2) c have dn: "distinct (map schema_name cs)" and ndc: "names_distinct c"
    by (auto simp: list_all_iff)
  obtain n' where n': "map_of fs (schema_name c) = Some n'" and cn': "conforms c n'"
    using conforms_fields_lookup [OF cf dn c] by blast
  obtain q v where q: "p' = schema_name c # q" and get: "node_get q n' = Some v"
    and tv: "has_type ty v"
    using "2.IH" [OF c cn' ndc kp] by blast
  have "node_get p' n = Some v"
    using n n' q get by simp
  with p tv show ?case by auto
qed

subsection \<open>Typing is kept by typed writes\<close>

lemma map_upd_other:
  "f \<notin> set (map fst fs) \<Longrightarrow> map (\<lambda>(g, n). (g, if g = f then h n else n)) fs = fs"
  by (induction fs) auto

lemma conforms_fields_names:
  "conforms_fields cs fs \<Longrightarrow> map fst fs = map schema_name cs"
proof (induction cs arbitrary: fs)
  case Nil
  then show ?case by (cases fs) auto
next
  case (Cons c cs)
  then show ?case by (cases fs) auto
qed

lemma conforms_fields_update:
  "conforms_fields cs fs \<Longrightarrow> distinct (map schema_name cs) \<Longrightarrow> c \<in> set cs \<Longrightarrow>
     (\<And>n. map_of fs (schema_name c) = Some n \<Longrightarrow> conforms c (h n)) \<Longrightarrow>
     conforms_fields cs (map (\<lambda>(g, n). (g, if g = schema_name c then h n else n)) fs)"
proof (induction cs arbitrary: fs)
  case Nil
  then show ?case by simp
next
  case (Cons c' cs)
  then obtain g n fs' where fs: "fs = (g, n) # fs'" and g: "g = schema_name c'"
    and cn: "conforms c' n" and cf: "conforms_fields cs fs'"
    by (cases fs) auto
  show ?case
  proof (cases "c = c'")
    case True
    have "schema_name c \<notin> set (map fst fs')"
      using Cons.prems(2) True conforms_fields_names [OF cf] by simp
    then have "map (\<lambda>(g, n). (g, if g = schema_name c then h n else n)) fs' = fs'"
      by (rule map_upd_other)
    moreover have "conforms c (h n)"
      using Cons.prems(4) fs g True by simp
    ultimately show ?thesis
      using fs g True cf by simp
  next
    case False
    with Cons.prems have c: "c \<in> set cs" by simp
    then have "schema_name c \<in> set (map schema_name cs)"
      by simp
    then have ne: "schema_name c \<noteq> schema_name c'"
      using Cons.prems(2) by auto
    have "conforms_fields cs (map (\<lambda>(g, n). (g, if g = schema_name c then h n else n)) fs')"
      using Cons.IH [OF cf _ c] Cons.prems(2,4) fs g ne by auto
    with fs g ne cn show ?thesis by simp
  qed
qed

lemma leaves_set_conforms:
  "conforms c n \<Longrightarrow> names_distinct c \<Longrightarrow> (k, schema_name c # q, ty) \<in> set (leaves pre c) \<Longrightarrow>
     has_type ty v \<Longrightarrow> conforms c (node_set q v n)"
proof (induction pre c arbitrary: n k q rule: leaves.induct)
  case (1 pre nm ty rn d)
  then show ?case by (cases n) auto
next
  case (2 pre nm cs)
  from "2.prems"(1) obtain fs where n: "n = PGroup fs" and cf: "conforms_fields cs fs"
    by (cases n) auto
  from "2.prems"(3) obtain c where c: "c \<in> set cs"
    and kp: "(k, q, ty) \<in> set (leaves (pre @ [nm]) c)"
    by auto
  obtain q' where q: "q = schema_name c # q'"
    using leaves_path_head [OF kp] by blast
  from "2.prems"(2) c have dn: "distinct (map schema_name cs)" and ndc: "names_distinct c"
    by (auto simp: list_all_iff)
  have upd: "conforms c (node_set q' v n')" if n': "map_of fs (schema_name c) = Some n'" for n'
  proof -
    obtain n'' where "map_of fs (schema_name c) = Some n''" and "conforms c n''"
      using conforms_fields_lookup [OF cf dn c] by blast
    with n' have "conforms c n'" by simp
    then show ?thesis
      using "2.IH" [OF c _ ndc _ "2.prems"(4)] kp q by blast
  qed
  have "conforms_fields cs (map (\<lambda>(g, n). (g, if g = schema_name c then node_set q' v n else n)) fs)"
    using conforms_fields_update [OF cf dn c] upd by blast
  with n q show ?case by simp
qed

subsection \<open>Distinct field names give distinct paths\<close>

lemma leaves_list_paths_distinct:
  "(\<And>c. c \<in> set cs \<Longrightarrow> distinct (map (fst \<circ> snd) (leaves pre c))) \<Longrightarrow>
   distinct (map schema_name cs) \<Longrightarrow>
   distinct (map (fst \<circ> snd) (concat (map (leaves pre) cs)))"
proof (induction cs)
  case Nil
  then show ?case by simp
next
  case (Cons c cs)
  have dc: "distinct (map (fst \<circ> snd) (leaves pre c))"
    by (rule Cons.prems(1)) simp
  have disj: "set (map (fst \<circ> snd) (leaves pre c)) \<inter>
      set (map (fst \<circ> snd) (concat (map (leaves pre) cs))) = {}"
  proof -
    have False if p1: "p \<in> set (map (fst \<circ> snd) (leaves pre c))"
      and p2: "p \<in> set (map (fst \<circ> snd) (concat (map (leaves pre) cs)))" for p
    proof -
      from p2 obtain c' k ty where c': "c' \<in> set cs" and "(k, p, ty) \<in> set (leaves pre c')"
        by auto
      then have "hd p = schema_name c'"
        using leaves_path_head by fastforce
      moreover from p1 obtain k' ty' where "(k', p, ty') \<in> set (leaves pre c)"
        by auto
      then have "hd p = schema_name c"
        using leaves_path_head by fastforce
      ultimately show False
        using Cons.prems(2) c' by auto
    qed
    then show ?thesis by blast
  qed
  have "distinct (map (fst \<circ> snd) (concat (map (leaves pre) cs)))"
    using Cons.IH Cons.prems by (simp add: comp_def)
  with dc disj show ?case
    by (simp add: comp_def)
qed

lemma leaves_paths_distinct:
  "names_distinct c \<Longrightarrow> distinct (map (fst \<circ> snd) (leaves pre c))"
proof (induction pre c rule: leaves.induct)
  case (1 pre nm ty rn d)
  then show ?case by simp
next
  case (2 pre nm cs)
  have "distinct (map (fst \<circ> snd) (concat (map (leaves (pre @ [nm])) cs)))"
  proof (rule leaves_list_paths_distinct)
    fix c
    assume c: "c \<in> set cs"
    with "2.prems" have "names_distinct c"
      by (auto simp: list_all_iff)
    with c show "distinct (map (fst \<circ> snd) (leaves (pre @ [nm]) c))"
      by (rule "2.IH")
  next
    show "distinct (map schema_name cs)"
      using "2.prems" by simp
  qed
  then show ?case
    by (simp add: case_prod_beta comp_def distinct_map inj_on_def)
qed

lemma root_leaves_paths_distinct:
  "names_distinct (Group [] sch) \<Longrightarrow> distinct (map (fst \<circ> snd) (root_leaves sch))"
  unfolding root_leaves_def
  by (rule leaves_list_paths_distinct) (auto simp: list_all_iff intro: leaves_paths_distinct)

subsection \<open>The generated table meets the store's contract\<close>

lemma pref_accessors_Some:
  "pref_accessors sch k = Some a \<Longrightarrow>
     \<exists>p ty. a = field_accessor p ty \<and> (k, p, ty) \<in> set (root_leaves sch)"
  by (auto simp: pref_accessors_def hashmap_of_def dest!: map_of_SomeD) blast

lemma root_leaves_member:
  "(k, p, ty) \<in> set (root_leaves sch) \<Longrightarrow> \<exists>c \<in> set sch. (k, p, ty) \<in> set (leaves [] c)"
  by (auto simp: root_leaves_def)

lemma root_leaves_readable:
  assumes "prefs_conform sch t" and "names_distinct (Group [] sch)"
    and "(k, p, ty) \<in> set (root_leaves sch)"
  shows "\<exists>v. node_get p t = Some v \<and> has_type ty v"
proof -
  obtain fs where t: "t = PGroup fs" and cf: "conforms_fields sch fs"
    using assms(1) by (cases t) (auto simp: prefs_conform_def)
  obtain c where c: "c \<in> set sch" and kp: "(k, p, ty) \<in> set (leaves [] c)"
    using root_leaves_member [OF assms(3)] by blast
  from assms(2) c have dn: "distinct (map schema_name sch)" and ndc: "names_distinct c"
    by (auto simp: list_all_iff)
  obtain n where n: "map_of fs (schema_name c) = Some n" and cn: "conforms c n"
    using conforms_fields_lookup [OF cf dn c] by blast
  obtain q v where "p = schema_name c # q" and "node_get q n = Some v" and "has_type ty v"
    using leaves_readable [OF cn ndc kp] by blast
  with t n show ?thesis by auto
qed

lemma root_leaves_set_conforms:
  assumes "prefs_conform sch t" and "names_distinct (Group [] sch)"
    and "(k, p, ty) \<in> set (root_leaves sch)" and "has_type ty v"
  shows "prefs_conform sch (node_set p v t)"
proof -
  obtain fs where t: "t = PGroup fs" and cf: "conforms_fields sch fs"
    using assms(1) by (cases t) (auto simp: prefs_conform_def)
  obtain c where c: "c \<in> set sch" and kp: "(k, p, ty) \<in> set (leaves [] c)"
    using root_leaves_member [OF assms(3)] by blast
  from assms(2) c have dn: "distinct (map schema_name sch)" and ndc: "names_distinct c"
    by (auto simp: list_all_iff)
  obtain q where q: "p = schema_name c # q"
    using leaves_path_head [OF kp] by blast
  have "conforms c (node_set q v n)" if "map_of fs (schema_name c) = Some n" for n
  proof -
    obtain n' where "map_of fs (schema_name c) = Some n'" and "conforms c n'"
      using conforms_fields_lookup [OF cf dn c] by blast
    with that have "conforms c n" by simp
    then show ?thesis
      using leaves_set_conforms ndc kp q assms(4) by blast
  qed
  then have "conforms_fields sch (map (\<lambda>(g, n). (g, if g = schema_name c then node_set q v n else n)) fs)"
    using conforms_fields_update [OF cf dn c] by blast
  with t q show ?thesis by (simp add: prefs_conform_def)
qed

lemma distinct_map_eqD:
  "distinct (map f xs) \<Longrightarrow> x \<in> set xs \<Longrightarrow> y \<in> set xs \<Longrightarrow> f x = f y \<Longrightarrow> x = y"
  by (auto simp: distinct_map inj_on_def)

lemma field_accessor_lawful:
  assumes "names_distinct (Group [] sch)" and "(k, p, ty) \<in> set (root_leaves sch)"
  shows "accessor_lawful (prefs_conform sch) (field_accessor p ty)"
  unfolding accessor_lawful_def
proof (intro allI impI)
  fix t v t'
  assume t: "prefs_conform sch t" and set: "setter (field_accessor p ty) t v = Some t'"
  then have tv: "has_type ty v" and t': "t' = node_set p v t"
    by (auto simp: field_accessor_def split: if_splits)
  obtain w where "node_get p t = Some w"
    using root_leaves_readable [OF t assms] by blast
  then have "node_get p t' = Some v"
    using t' node_get_node_set_same by simp
  moreover have "prefs_conform sch t'"
    using root_leaves_set_conforms [OF t assms tv] t' by simp
  ultimately show "prefs_conform sch t' \<and> getter (field_accessor p ty) t' = v"
    by (simp add: field_accessor_def)
qed

lemma field_accessors_independent:
  assumes "names_distinct (Group [] sch)" and "(k1, p1, ty1) \<in> set (root_leaves sch)"
    and "(k2, p2, ty2) \<in> set (root_leaves sch)" and "p1 \<noteq> p2"
  shows "accessors_independent (prefs_conform sch) (field_accessor p1 ty1) (field_accessor p2 ty2)"
  unfolding accessors_independent_def
proof (intro allI impI)
  fix t v t'
  assume t: "prefs_conform sch t" and set: "setter (field_accessor p1 ty1) t v = Some t'"
  then have t': "t' = node_set p1 v t"
    by (auto simp: field_accessor_def split: if_splits)
  obtain w1 where "node_get p1 t = Some w1"
    using root_leaves_readable [OF t assms(1,2)] by blast
  moreover obtain w2 where "node_get p2 t = Some w2"
    using root_leaves_readable [OF t assms(1,3)] by blast
  ultimately have "node_get p2 t' = node_get p2 t"
    using t' node_get_node_set_other assms(4) by simp
  then show "getter (field_accessor p2 ty2) t' = getter (field_accessor p2 ty2) t"
    by (simp add: field_accessor_def)
qed

theorem pref_accessors_lawful:
  assumes wf: "schema_wf sch"
  shows "table_lawful (prefs_conform sch) (pref_accessors sch)"
  unfolding table_lawful_def
proof (intro conjI allI impI)
  have nd: "names_distinct (Group [] sch)"
    using wf by (simp add: schema_wf_def)
  fix k a
  assume "pref_accessors sch k = Some a"
  then obtain p ty where "a = field_accessor p ty" and "(k, p, ty) \<in> set (root_leaves sch)"
    using pref_accessors_Some by blast
  then show "accessor_lawful (prefs_conform sch) a"
    using field_accessor_lawful [OF nd] by simp
next
  have nd: "names_distinct (Group [] sch)"
    using wf by (simp add: schema_wf_def)
  then have dp: "distinct (map (fst \<circ> snd) (root_leaves sch))"
    by (rule root_leaves_paths_distinct)
  fix k1 k2 a b
  assume ne: "k1 \<noteq> k2" and a: "pref_accessors sch k1 = Some a" and b: "pref_accessors sch k2 = Some b"
  obtain p1 ty1 where a': "a = field_accessor p1 ty1" and m1: "(k1, p1, ty1) \<in> set (root_leaves sch)"
    using pref_accessors_Some [OF a] by blast
  obtain p2 ty2 where b': "b = field_accessor p2 ty2" and m2: "(k2, p2, ty2) \<in> set (root_leaves sch)"
    using pref_accessors_Some [OF b] by blast
  have "p1 \<noteq> p2"
    using distinct_map_eqD [OF dp m1 m2] ne by auto
  then show "accessors_independent (prefs_conform sch) a b"
    using field_accessors_independent [OF nd m1 m2] a' b' by simp
qed

subsection \<open>Looking keys up in the generated table\<close>

lemma pref_accessors_leaf:
  assumes "schema_wf sch" and "(k, p, ty) \<in> set (root_leaves sch)"
  shows "pref_accessors sch k = Some (field_accessor p ty)"
proof -
  have "distinct (map fst (map (\<lambda>(k, p, ty). (k, field_accessor p ty)) (root_leaves sch)))"
    using assms(1) by (simp add: schema_wf_def case_prod_beta comp_def)
  moreover have "(k, field_accessor p ty) \<in> set (map (\<lambda>(k, p, ty). (k, field_accessor p ty)) (root_leaves sch))"
    using assms(2) by force
  ultimately show ?thesis
    by (simp add: pref_accessors_def)
qed

lemma pref_key_type_Some:
  assumes "schema_wf sch" and "pref_key_type sch k = Some ty"
  shows "\<exists>p. (k, p, ty) \<in> set (root_leaves sch)"
  using assms(2) by (auto simp: pref_key_type_def hashmap_of_def dest!: map_of_SomeD)

lemma pref_key_type_None:
  "pref_key_type sch k = None \<longleftrightarrow> pref_accessors sch k = None"
  by (force simp: pref_key_type_def pref_accessors_def hashmap_of_None_iff)

lemma field_accessor_setter:
  "setter (field_accessor p ty) t v = (if has_type ty v then Some (node_set p v t) else None)"
  by (simp add: field_accessor_def)

lemma field_accessor_getter:
  "getter (field_accessor p ty) t = the (node_get p t)"
  by (simp add: field_accessor_def)

subsection \<open>The store over a generated table\<close>

lemma schema_store_unknown:
  assumes "accessors s = pref_accessors sch" and "pref_key_type sch k = None"
  shows "prefs_get s k = Inl (NoSuchPref k)" and "prefs_set s k v = (s, Inl (NoSuchPref k))"
  using assms by (simp_all add: pref_key_type_None prefs_get_def prefs_set_def)

lemma schema_store_mismatch:
  assumes "schema_wf sch" and "accessors s = pref_accessors sch"
    and "(k, p, ty) \<in> set (root_leaves sch)" and "\<not> has_type ty v"
  shows "prefs_set s k v = (s, Inl (TypeMismatch k))"
  using assms pref_accessors_leaf [OF assms(1,3)]
  by (simp add: prefs_set_def field_accessor_setter)

lemma schema_store_set:
  assumes "schema_wf sch" and "accessors s = pref_accessors sch"
    and "(k, p, ty) \<in> set (root_leaves sch)" and "has_type ty v"
  shows "prefs_set s k v = (s\<lparr>user_prefs := node_set p v (user_prefs s)\<rparr>, Inr ())"
  using assms pref_accessors_leaf [OF assms(1,3)]
  by (simp add: prefs_set_def field_accessor_setter)

lemma schema_store_get:
  assumes "schema_wf sch" and "accessors s = pref_accessors sch"
    and "(k, p, ty) \<in> set (root_leaves sch)"
  shows "prefs_get s k = Inr (the (node_get p (user_prefs s)))"
  using assms pref_accessors_leaf [OF assms(1,3)]
  by (simp add: prefs_get_def field_accessor_getter)

lemma schema_wf_names: "schema_wf sch \<Longrightarrow> names_distinct (Group [] sch)"
  by (simp add: schema_wf_def)

subsection \<open>Writing two leaves in either order\<close>

lemma node_set_commute:
  "\<not> prefix p q \<Longrightarrow> \<not> prefix q p \<Longrightarrow> node_set p v (node_set q w t) = node_set q w (node_set p v t)"
proof (induction p arbitrary: q t)
  case Nil
  then show ?case by simp
next
  case (Cons f p)
  obtain g q' where q: "q = g # q'"
    using Cons.prems by (cases q) auto
  show ?case
  proof (cases t)
    case (PGroup fs)
    have "node_set p v (node_set q' w n) = node_set q' w (node_set p v n)" if "f = g" for n
      using Cons.IH [of q' n] Cons.prems q that by simp
    then show ?thesis
      using PGroup q by (auto simp: comp_def case_prod_beta intro!: map_cong)
  qed (simp add: q)
qed

lemma leaves_prefix_free:
  "names_distinct c \<Longrightarrow> (k1, p1, t1) \<in> set (leaves pre c) \<Longrightarrow> (k2, p2, t2) \<in> set (leaves pre c) \<Longrightarrow>
   prefix p1 p2 \<Longrightarrow> p1 = p2"
proof (induction pre c arbitrary: k1 p1 t1 k2 p2 t2 rule: leaves.induct)
  case (1 pre nm ty rn d)
  then show ?case by simp
next
  case (2 pre nm cs)
  obtain c1 q1 where c1: "c1 \<in> set cs" and e1: "(k1, q1, t1) \<in> set (leaves (pre @ [nm]) c1)" and p1: "p1 = nm # q1"
    using "2.prems"(2) by auto
  obtain c2 q2 where c2: "c2 \<in> set cs" and e2: "(k2, q2, t2) \<in> set (leaves (pre @ [nm]) c2)" and p2: "p2 = nm # q2"
    using "2.prems"(3) by auto
  obtain r1 r2 where "q1 = schema_name c1 # r1" and "q2 = schema_name c2 # r2"
    using leaves_path_head [OF e1] leaves_path_head [OF e2] by blast
  then have "schema_name c1 = schema_name c2"
    using "2.prems"(4) p1 p2 by simp
  then have "c1 = c2"
    using "2.prems"(1) c1 c2 by (auto dest: inj_onD simp: distinct_map)
  then show ?case
    using "2.IH" [OF c1 _ e1] e2 "2.prems"(1,4) c1 p1 p2 by (auto simp: list_all_iff)
qed

lemma root_leaves_prefix_free:
  assumes "schema_wf sch" and "(k1, p1, t1) \<in> set (root_leaves sch)" and "(k2, p2, t2) \<in> set (root_leaves sch)"
    and "prefix p1 p2"
  shows "p1 = p2"
proof -
  have nd: "names_distinct (Group [] sch)"
    using assms(1) by (rule schema_wf_names)
  obtain c1 where c1: "c1 \<in> set sch" and e1: "(k1, p1, t1) \<in> set (leaves [] c1)"
    using root_leaves_member [OF assms(2)] by blast
  obtain c2 where c2: "c2 \<in> set sch" and e2: "(k2, p2, t2) \<in> set (leaves [] c2)"
    using root_leaves_member [OF assms(3)] by blast
  obtain r1 r2 where "p1 = schema_name c1 # r1" and "p2 = schema_name c2 # r2"
    using leaves_path_head [OF e1] leaves_path_head [OF e2] by blast
  then have "c1 = c2"
    using assms(4) nd c1 c2 by (auto dest: inj_onD simp: distinct_map)
  then show ?thesis
    using leaves_prefix_free [OF _ e1 _ assms(4)] e2 nd c1 by (auto simp: list_all_iff)
qed

lemma root_leaves_same_path:
  assumes "schema_wf sch" and "(k1, p, t1) \<in> set (root_leaves sch)" and "(k2, p, t2) \<in> set (root_leaves sch)"
  shows "k1 = k2"
proof -
  have "distinct (map (fst \<circ> snd) (root_leaves sch))"
    using assms(1) by (intro root_leaves_paths_distinct schema_wf_names)
  then have "inj_on (fst \<circ> snd) (set (root_leaves sch))"
    by (simp add: distinct_map)
  then have "(k1, p, t1) = (k2, p, t2)"
    by (rule inj_onD) (use assms(2,3) in simp_all)
  then show ?thesis
    by simp
qed

end
