(* ===== verification/ServoSchema.thy ===== *)
theory ServoSchema
  imports Schema
begin

text \<open>
  The concrete schema of \<open>prefs.rs\<close>, module \<open>gen\<close>: the default suppliers
  \<open>default_layout_threads\<close>, \<open>black\<close> and \<open>white\<close>, and the nested structs
  from \<open>Pref\<close> down, one definition per top-level section (the large sections
  \<open>dom\<close> and \<open>js\<close> in several parts), each transcribing the structs' fields in
  declaration order with their Rust types and serde attributes. \<open>servo_schema\<close> is the
  root struct; \<open>servo_accessors\<close> is the table \<open>PREF_ACCESSORS\<close> that
  \<open>build_structs\<close> generates from it.
\<close>

subsection \<open>Default suppliers\<close>

text \<open>
  \<open>default_layout_threads\<close>: \<open>max(num_cpus::get() * 3 / 4, 1) as i64\<close>. The number of
  CPUs is a parameter; the arithmetic is on \<open>usize\<close> (64 bits, wrapping as a release
  build does), the maximum is unsigned, and the cast to \<open>i64\<close> keeps the bits.
\<close>

definition default_layout_threads :: "usize \<Rightarrow> i64" where
  "default_layout_threads ncpus = max (ncpus * 3 div 4) 1"

definition black :: i64 where
  "black = 0x000000"

definition white :: i64 where
  "white = 0xFFFFFF"

subsection \<open>The structs\<close>

text \<open>The \<open>browser\<close> section: struct \<open>Browser\<close> and the structs it nests.\<close>

definition schema_browser :: "schema" where
  "schema_browser =
    Group ''browser'' [
      Group ''display'' [
        Leaf ''background_color'' TyI64 None (DefaultFn ''white''),
        Leaf ''foreground_color'' TyI64 None (DefaultFn ''black'')]]"

text \<open>The \<open>css\<close> section: struct \<open>Css\<close> and the structs it nests.\<close>

definition schema_css :: "schema" where
  "schema_css =
    Group ''css'' [
      Group ''animations'' [
        Group ''testing'' [
          Leaf ''enabled'' TyBool None DefaultTrait]]]"

text \<open>The \<open>devtools\<close> section: struct \<open>Devtools\<close> and the structs it nests.\<close>

definition schema_devtools :: "schema" where
  "schema_devtools =
    Group ''devtools'' [
      Group ''server'' [
        Leaf ''enabled'' TyBool None NoDefault,
        Leaf ''port'' TyI64 None NoDefault]]"

text \<open>Fields \<open>webgpu\<close> to \<open>script\<close> of struct \<open>Dom\<close>, with the structs they nest.\<close>

definition dom_fields_webgpu_script :: "schema list" where
  "dom_fields_webgpu_script =
    [
      Group ''webgpu'' [
        Leaf ''enabled'' TyBool None NoDefault],
      Group ''bluetooth'' [
        Leaf ''enabled'' TyBool None NoDefault,
        Group ''testing'' [
          Leaf ''enabled'' TyBool None NoDefault]],
      Group ''canvas_capture'' [
        Leaf ''enabled'' TyBool None NoDefault],
      Group ''canvas_text'' [
        Leaf ''enabled'' TyBool None NoDefault],
      Group ''composition_event'' [
        Leaf ''enabled'' TyBool (Some ''dom.compositionevent.enabled'') NoDefault],
      Group ''custom_elements'' [
        Leaf ''enabled'' TyBool (Some ''dom.customelements.enabled'') NoDefault],
      Group ''document'' [
        Leaf ''dblclick_timeout'' TyI64 None NoDefault,
        Leaf ''dblclick_dist'' TyI64 None NoDefault],
      Group ''forcetouch'' [
        Leaf ''enabled'' TyBool None NoDefault],
      Group ''fullscreen'' [
        Leaf ''test'' TyBool None NoDefault],
      Group ''gamepad'' [
        Leaf ''enabled'' TyBool None NoDefault],
      Group ''imagebitmap'' [
        Leaf ''enabled'' TyBool None NoDefault],
      Group ''microdata'' [
        Group ''testing'' [
          Leaf ''enabled'' TyBool None NoDefault]],
      Group ''mouse_event'' [
        Group ''which'' [
          Leaf ''enabled'' TyBool (Some ''dom.mouseevent.which.enabled'') NoDefault]],
      Group ''mutation_observer'' [
        Leaf ''enabled'' TyBool None NoDefault],
      Group ''offscreen_canvas'' [
        Leaf ''enabled'' TyBool None NoDefault],
      Group ''permissions'' [
        Leaf ''enabled'' TyBool None NoDefault,
        Group ''testing'' [
          Leaf ''allowed_in_nonsecure_contexts'' TyBool None NoDefault]],
      Group ''script'' [
        Leaf ''asynch'' TyBool None NoDefault]]"

text \<open>Fields \<open>serviceworker\<close> to \<open>testbinding\<close> of struct \<open>Dom\<close>, with the structs they nest.\<close>

definition dom_fields_serviceworker_testbinding :: "schema list" where
  "dom_fields_serviceworker_testbinding =
    [
      Group ''serviceworker'' [
        Leaf ''enabled'' TyBool None NoDefault,
        Leaf ''timeout_seconds'' TyI64 None NoDefault],
      Group ''servo_helpers'' [
        Leaf ''enabled'' TyBool None NoDefault],
      Group ''servoparser'' [
        Group ''async_html_tokenizer'' [
          Leaf ''enabled'' TyBool None NoDefault]],
      Group ''shadowdom'' [
        Leaf ''enabled'' TyBool None NoDefault],
      Group ''svg'' [
        Leaf ''enabled'' TyBool None NoDefault],
      Group ''testable_crash'' [
        Leaf ''enabled'' TyBool None NoDefault],
      Group ''testbinding'' [
        Leaf ''enabled'' TyBool None NoDefault,
        Group ''prefcontrolled'' [
          Leaf ''enabled'' TyBool None DefaultTrait],
        Group ''prefcontrolled2'' [
          Leaf ''enabled'' TyBool None DefaultTrait],
        Group ''preference_value'' [
          Leaf ''falsy'' TyBool None DefaultTrait,
          Leaf ''quote_string_test'' TyString None DefaultTrait,
          Leaf ''space_string_test'' TyString None DefaultTrait,
          Leaf ''string_empty'' TyString None DefaultTrait,
          Leaf ''string_test'' TyString None DefaultTrait,
          Leaf ''truthy'' TyBool None DefaultTrait]]]"

text \<open>Fields \<open>testing\<close> to \<open>worklet\<close> of struct \<open>Dom\<close>, with the structs they nest.\<close>

definition dom_fields_testing_worklet :: "schema list" where
  "dom_fields_testing_worklet =
    [
      Group ''testing'' [
        Group ''element'' [
          Group ''activation'' [
            Leaf ''enabled'' TyBool None DefaultTrait]],
        Group ''html_input_element'' [
          Group ''select_files'' [
            Leaf ''enabled'' TyBool (Some ''dom.testing.htmlinputelement.select_files.enabled'') NoDefault]]],
      Group ''testperf'' [
        Leaf ''enabled'' TyBool None DefaultTrait],
      Group ''webgl2'' [
        Leaf ''enabled'' TyBool None NoDefault],
      Group ''webrtc'' [
        Group ''transceiver'' [
          Leaf ''enabled'' TyBool None NoDefault],
        Leaf ''enabled'' TyBool None DefaultTrait],
      Group ''webvtt'' [
        Leaf ''enabled'' TyBool None NoDefault],
      Group ''webxr'' [
        Leaf ''enabled'' TyBool None DefaultTrait,
        Leaf ''test'' TyBool None DefaultTrait,
        Leaf ''first_person_observer_view'' TyBool None NoDefault,
        Group ''glwindow'' [
          Leaf ''enabled'' TyBool None DefaultTrait,
          Leaf ''left_right'' TyBool (Some ''dom.webxr.glwindow.left-right'') NoDefault,
          Leaf ''red_cyan'' TyBool (Some ''dom.webxr.glwindow.red-cyan'') NoDefault,
          Leaf ''spherical'' TyBool None NoDefault,
          Leaf ''cubemap'' TyBool None NoDefault],
        Group ''hands'' [
          Leaf ''enabled'' TyBool None DefaultTrait],
        Group ''layers'' [
          Leaf ''enabled'' TyBool None NoDefault],
        Leaf ''sessionavailable'' TyBool None NoDefault,
        Leaf ''unsafe_assume_user_intent'' TyBool (Some ''dom.webxr.unsafe-assume-user-intent'') NoDefault],
      Group ''worklet'' [
        Group ''blockingsleep'' [
          Leaf ''enabled'' TyBool None DefaultTrait],
        Leaf ''enabled'' TyBool None DefaultTrait,
        Group ''testing'' [
          Leaf ''enabled'' TyBool None DefaultTrait],
        Leaf ''timeout_ms'' TyI64 None NoDefault]]"

text \<open>The \<open>dom\<close> section: struct \<open>Dom\<close>, whose fields are declared in three groups above.\<close>

definition schema_dom :: "schema" where
  "schema_dom =
    Group ''dom'' (dom_fields_webgpu_script @ dom_fields_serviceworker_testbinding @ dom_fields_testing_worklet)"

text \<open>The \<open>gfx\<close> section: struct \<open>Gfx\<close> and the structs it nests.\<close>

definition schema_gfx :: "schema" where
  "schema_gfx =
    Group ''gfx'' [
      Group ''subpixel_text_antialiasing'' [
        Leaf ''enabled'' TyBool (Some ''gfx.subpixel-text-antialiasing.enabled'') NoDefault],
      Group ''texture_swizzling'' [
        Leaf ''enabled'' TyBool (Some ''gfx.texture-swizzling.enabled'') NoDefault]]"

text \<open>Fields \<open>asmjs\<close> to \<open>mem\<close> of struct \<open>Js\<close>, with the structs they nest.\<close>

definition js_fields_asmjs_mem :: "schema list" where
  "js_fields_asmjs_mem =
    [
      Group ''asmjs'' [
        Leaf ''enabled'' TyBool None NoDefault],
      Group ''asyncstack'' [
        Leaf ''enabled'' TyBool None NoDefault],
      Group ''baseline'' [
        Leaf ''enabled'' TyBool None NoDefault,
        Group ''unsafe_eager_compilation'' [
          Leaf ''enabled'' TyBool None NoDefault]],
      Group ''discard_system_source'' [
        Leaf ''enabled'' TyBool None NoDefault],
      Group ''dump_stack_on_debuggee_would_run'' [
        Leaf ''enabled'' TyBool None NoDefault],
      Group ''ion'' [
        Leaf ''enabled'' TyBool None NoDefault,
        Group ''offthread_compilation'' [
          Leaf ''enabled'' TyBool None NoDefault],
        Group ''unsafe_eager_compilation'' [
          Leaf ''enabled'' TyBool None NoDefault]],
      Group ''mem'' [
        Group ''gc'' [
          Leaf ''allocation_threshold_mb'' TyI64 None NoDefault,
          Leaf ''allocation_threshold_factor'' TyI64 None NoDefault,
          Leaf ''allocation_threshold_avoid_interrupt_factor'' TyI64 None NoDefault,
          Group ''compacting'' [
            Leaf ''enabled'' TyBool None NoDefault],
          Leaf ''decommit_threshold_mb'' TyI64 None NoDefault,
          Group ''dynamic_heap_growth'' [
            Leaf ''enabled'' TyBool None NoDefault],
          Group ''dynamic_mark_slice'' [
            Leaf ''enabled'' TyBool None NoDefault],
          Leaf ''empty_chunk_count_max'' TyI64 None NoDefault,
          Leaf ''empty_chunk_count_min'' TyI64 None NoDefault,
          Leaf ''high_frequency_heap_growth_max'' TyI64 None NoDefault,
          Leaf ''high_frequency_heap_growth_min'' TyI64 None NoDefault,
          Leaf ''high_frequency_high_limit_mb'' TyI64 None NoDefault,
          Leaf ''high_frequency_low_limit_mb'' TyI64 None NoDefault,
          Leaf ''high_frequency_time_limit_ms'' TyI64 None NoDefault,
          Group ''incremental'' [
            Leaf ''enabled'' TyBool None NoDefault,
            Leaf ''slice_ms'' TyI64 None NoDefault],
          Leaf ''low_frequency_heap_growth'' TyI64 None NoDefault,
          Group ''per_zone'' [
            Leaf ''enabled'' TyBool None NoDefault],
          Group ''zeal'' [
            Leaf ''frequency'' TyI64 None NoDefault,
            Leaf ''level'' TyI64 None NoDefault]],
        Leaf ''max'' TyI64 None NoDefault]]"

text \<open>Fields \<open>native_regex\<close> to \<open>werror\<close> of struct \<open>Js\<close>, with the structs they nest.\<close>

definition js_fields_native_regex_werror :: "schema list" where
  "js_fields_native_regex_werror =
    [
      Group ''native_regex'' [
        Leaf ''enabled'' TyBool None NoDefault],
      Group ''offthread_compilation'' [
        Leaf ''enabled'' TyBool None NoDefault],
      Group ''parallel_parsing'' [
        Leaf ''enabled'' TyBool None NoDefault],
      Group ''shared_memory'' [
        Leaf ''enabled'' TyBool None NoDefault],
      Group ''strict'' [
        Group ''debug'' [
          Leaf ''enabled'' TyBool None NoDefault],
        Leaf ''enabled'' TyBool None NoDefault],
      Group ''throw_on_asmjs_validation_failure'' [
        Leaf ''enabled'' TyBool None NoDefault],
      Group ''throw_on_debuggee_would_run'' [
        Leaf ''enabled'' TyBool None NoDefault],
      Group ''timers'' [
        Leaf ''minimum_duration'' TyI64 None NoDefault],
      Group ''wasm'' [
        Group ''baseline'' [
          Leaf ''enabled'' TyBool None NoDefault],
        Leaf ''enabled'' TyBool None NoDefault,
        Group ''ion'' [
          Leaf ''enabled'' TyBool None NoDefault]],
      Group ''werror'' [
        Leaf ''enabled'' TyBool None NoDefault]]"

text \<open>The \<open>js\<close> section: struct \<open>Js\<close>.\<close>

definition schema_js :: "schema" where
  "schema_js =
    Group ''js'' (js_fields_asmjs_mem @ js_fields_native_regex_werror)"

text \<open>The \<open>layout\<close> section: struct \<open>Layout\<close> and the structs it nests.\<close>

definition schema_layout :: "schema" where
  "schema_layout =
    Group ''layout'' [
      Group ''animations'' [
        Group ''test'' [
          Leaf ''enabled'' TyBool None NoDefault]],
      Group ''columns'' [
        Leaf ''enabled'' TyBool None NoDefault],
      Group ''flexbox'' [
        Leaf ''enabled'' TyBool None NoDefault],
      Leaf ''legacy_layout'' TyBool None NoDefault,
      Leaf ''threads'' TyI64 None (DefaultFn ''default_layout_threads''),
      Group ''writing_mode'' [
        Leaf ''enabled'' TyBool (Some ''layout.writing-mode.enabled'') NoDefault]]"

text \<open>The \<open>media\<close> section: struct \<open>Media\<close> and the structs it nests.\<close>

definition schema_media :: "schema" where
  "schema_media =
    Group ''media'' [
      Group ''glvideo'' [
        Leaf ''enabled'' TyBool None NoDefault],
      Group ''testing'' [
        Leaf ''enabled'' TyBool None NoDefault]]"

text \<open>The \<open>network\<close> section: struct \<open>Network\<close> and the structs it nests.\<close>

definition schema_network :: "schema" where
  "schema_network =
    Group ''network'' [
      Group ''enforce_tls'' [
        Leaf ''enabled'' TyBool None NoDefault,
        Leaf ''localhost'' TyBool None NoDefault,
        Leaf ''onion'' TyBool None NoDefault],
      Group ''http_cache'' [
        Leaf ''disabled'' TyBool (Some ''network.http-cache.disabled'') NoDefault],
      Group ''mime'' [
        Leaf ''sniff'' TyBool None NoDefault]]"

text \<open>The \<open>session_history\<close> section: struct \<open>SessionHistory\<close> and the structs it nests.\<close>

definition schema_session_history :: "schema" where
  "schema_session_history =
    Group ''session_history'' [
      Leaf ''max_length'' TyI64 (Some ''session-history.max-length'') NoDefault]"

text \<open>The \<open>shell\<close> section: struct \<open>Shell\<close> and the structs it nests.\<close>

definition schema_shell :: "schema" where
  "schema_shell =
    Group ''shell'' [
      Group ''background_color'' [
        Leaf ''rgba'' (TyF64Array 4) (Some ''shell.background-color.rgba'') NoDefault],
      Group ''crash_reporter'' [
        Leaf ''enabled'' TyBool None NoDefault],
      Leaf ''homepage'' TyString None NoDefault,
      Group ''keep_screen_on'' [
        Leaf ''enabled'' TyBool None NoDefault],
      Leaf ''native_orientation'' TyString (Some ''shell.native-orientation'') NoDefault,
      Group ''native_titlebar'' [
        Leaf ''enabled'' TyBool (Some ''shell.native-titlebar.enabled'') NoDefault],
      Leaf ''searchpage'' TyString None NoDefault]"

text \<open>The \<open>webgl\<close> section: struct \<open>Webgl\<close> and the structs it nests.\<close>

definition schema_webgl :: "schema" where
  "schema_webgl =
    Group ''webgl'' [
      Group ''testing'' [
        Leaf ''context_creation_error'' TyBool None NoDefault]]"

text \<open>The root struct \<open>Pref\<close>: its twelve sections in declaration order.\<close>

definition servo_schema :: "schema list" where
  "servo_schema =
    [schema_browser, schema_css, schema_devtools, schema_dom, schema_gfx, schema_js, schema_layout, schema_media, schema_network, schema_session_history, schema_shell, schema_webgl]"

definition servo_accessors :: "pnode accessor_table" where
  "servo_accessors = pref_accessors servo_schema"

lemmas servo_schema_defs = servo_schema_def schema_browser_def schema_css_def schema_devtools_def
  schema_dom_def dom_fields_webgpu_script_def dom_fields_serviceworker_testbinding_def
  dom_fields_testing_worklet_def schema_gfx_def schema_js_def js_fields_asmjs_mem_def
  js_fields_native_regex_werror_def schema_layout_def schema_media_def schema_network_def
  schema_session_history_def schema_shell_def schema_webgl_def

subsection \<open>Well-formedness\<close>

text \<open>
  The schema is well formed: the field names of every struct are distinct (Rust checks
  this), and the 131 keys of the generated table are distinct. The check runs the
  executable definitions over the leaves.
\<close>

lemma servo_schema_wf: "schema_wf servo_schema"
  by code_simp

lemma servo_accessors_leaf:
  "(k, p, ty) \<in> set (root_leaves servo_schema) \<Longrightarrow> servo_accessors k = Some (field_accessor p ty)"
  unfolding servo_accessors_def by (rule pref_accessors_leaf [OF servo_schema_wf])

lemma servo_store_inv:
  "prefs_conform servo_schema (user_prefs s) \<Longrightarrow> accessors s = servo_accessors \<Longrightarrow>
     prefs_inv (prefs_conform servo_schema) s"
  using pref_accessors_lawful [OF servo_schema_wf] by (simp add: prefs_inv_def servo_accessors_def)

end
