(* ===== verification/Prefs_Module.thy ===== *)
theory Prefs_Module
  imports ServoSchema "HOL-Library.Multiset"
begin

text \<open>
  The functions of \<open>prefs.rs\<close> around the store: the static-path macros \<open>pref!\<close> and
  \<open>set_pref!\<close>, \<open>read_prefs_map\<close>, which turns a user preferences document into a map
  of preference values, and \<open>add_user_prefs\<close>, which applies such a map to the store
  and panics on the first error. The process-wide store \<open>PREFS\<close> is passed explicitly.

  A \<open>HashMap\<close> is represented by its entries in iteration order. Rust does not fix
  that order, so the theorems about these functions hold for every order. The JSON
  parse of \<open>serde_json::from_str::<HashMap<String, Value>>\<close> is the external library's:
  the model takes its outcome, \<open>None\<close> for a parse error (malformed text or a
  document that is not an object) and otherwise the parsed map's entries.
\<close>

subsection \<open>The static-path macros\<close>

text \<open>
  \<open>pref!(a.b.c)\<close> takes a read guard and clones the field at the path; \<open>set_pref!(a.b.c, v)\<close>
  takes a write guard and assigns it. Rust rejects at compile time a path that is not a
  field and a value of the wrong type; the model reads \<open>None\<close> at a path that is not a
  leaf, and the theorems about \<open>set_pref_static\<close> assume a value of the field's type.
\<close>

definition pref_static :: "string list \<Rightarrow> pnode preferences \<Rightarrow> pref_value option" where
  "pref_static path s = node_get path (user_prefs s)"

definition set_pref_static :: "string list \<Rightarrow> pref_value \<Rightarrow> pnode preferences \<Rightarrow> pnode preferences" where
  "set_pref_static path v s = s\<lparr>user_prefs := node_set path v (user_prefs s)\<rparr>"

subsection \<open>\<open>read_prefs_map\<close>\<close>

text \<open>
  \<open>Iterator::all\<close> on an iterator held by \<open>&mut\<close>: it consumes elements up to and
  including the first one that fails the predicate and leaves the rest in the iterator.
  The model returns the verdict and the elements left.
\<close>

fun iter_all :: "('a \<Rightarrow> bool) \<Rightarrow> 'a list \<Rightarrow> bool \<times> 'a list" where
  "iter_all P [] = (True, [])"
| "iter_all P (x # xs) = (if P x then iter_all P xs else (False, xs))"

text \<open>
  One entry of the document, as the closure passed to \<open>map\<close> in \<open>read_prefs_map\<close>.
  For an array, \<open>array\<close> is the lazy iterator \<open>v.iter().map(from_json_value)\<close>;
  \<open>array.all(|v| v.is_some())\<close> runs it, and \<open>array.flatten().collect()\<close> collects
  what \<open>all\<close> left of it.
\<close>

definition read_pref_entry :: "string \<times> json \<Rightarrow> pref_error + (string \<times> pref_value)" where
  "read_pref_entry kv =
     (case kv of (k, j) \<Rightarrow>
       (case j of
          JBool b \<Rightarrow> Inr (k, Bool b)
        | JNumber n \<Rightarrow>
            (if number_is_i64 n then Inr (k, IntV (the (number_as_i64 n)))
             else if number_is_f64 n then Inr (k, Float (the (number_as_f64 n)))
             else Inl (InvalidValue j))
        | JString s \<Rightarrow> Inr (k, Str s)
        | JArray vs \<Rightarrow>
            (let (all_some, rest) = iter_all (\<lambda>v. v \<noteq> None) (map from_json_value vs)
             in if all_some then Inr (k, Array (flatten_options rest))
                else Inl (InvalidValue j))
        | _ \<Rightarrow> Inl (InvalidValue j)))"

definition read_prefs_map ::
  "(string \<times> json) list option \<Rightarrow> pref_error + (string \<times> pref_value) list" where
  "read_prefs_map doc =
     (case doc of
        None \<Rightarrow> Inl JsonParseErr
      | Some entries \<Rightarrow> collect_result read_pref_entry entries)"

subsection \<open>\<open>add_user_prefs\<close>\<close>

text \<open>\<open>PREFS.set_all(prefs.into_iter())\<close>; an error panics, which the model writes \<open>None\<close>.\<close>

definition add_user_prefs ::
  "'p preferences \<Rightarrow> (string \<times> pref_value) list \<Rightarrow> 'p preferences option" where
  "add_user_prefs s kvs =
     (case prefs_set_all s kvs of (s', Inl _) \<Rightarrow> None | (s', Inr _) \<Rightarrow> Some s')"

text \<open>
  What the accessor table generated from a schema accepts: a key of a leaf field with a
  value of the field's type.
\<close>

definition set_accepts :: "schema list \<Rightarrow> string \<times> pref_value \<Rightarrow> bool" where
  "set_accepts sch kv =
     (case pref_key_type sch (fst kv) of None \<Rightarrow> False | Some ty \<Rightarrow> has_type ty (snd kv))"

text \<open>The write that \<open>set\<close> of an entry the table accepts makes to the schema value: the
  setter of the key's accessor applied to the value.\<close>

definition entry_write :: "schema list \<Rightarrow> string \<times> pref_value \<Rightarrow> pnode \<Rightarrow> pnode" where
  "entry_write sch kv t = the (setter (the (pref_accessors sch (fst kv))) t (snd kv))"

subsection \<open>Reading a user preferences document\<close>

lemma iter_all_fst: "fst (iter_all P xs) \<longleftrightarrow> list_all P xs"
  by (induction xs) auto

lemma iter_all_True_rest: "fst (iter_all P xs) \<Longrightarrow> snd (iter_all P xs) = []"
  by (induction xs) (auto split: if_splits)

lemma number_as_i64_the: "number_is_i64 n \<Longrightarrow> number_as_i64 n = Some (the (number_as_i64 n))"
  using number_as_i64_Some_iff by fastforce

lemma number_as_f64_the: "number_as_f64 n = Some (the (number_as_f64 n))"
  by (cases n) (simp_all add: number_as_f64_def)

lemma read_pref_entry_conv:
  "read_pref_entry (k, j) =
     (case from_json_value j of
        None \<Rightarrow> Inl (InvalidValue j)
      | Some (Array _) \<Rightarrow> Inr (k, Array [])
      | Some v \<Rightarrow> Inr (k, v))"
proof (cases j)
  case (JNumber n)
  then show ?thesis
    using number_as_i64_the [of n] number_as_f64_the [of n]
    by (auto simp: read_pref_entry_def split: option.splits)
next
  case (JArray vs)
  have "fst (iter_all (\<lambda>v. v \<noteq> None) (map from_json_value vs)) \<longleftrightarrow>
        (\<forall>v \<in> set vs. from_json_value v \<noteq> None)"
    by (simp add: iter_all_fst list_all_iff)
  with JArray show ?thesis
    using iter_all_True_rest [of "\<lambda>v. v \<noteq> None" "map from_json_value vs"]
    by (auto simp: read_pref_entry_def split: prod.splits option.splits dest: collect_option_Some_defined)
qed (simp_all add: read_pref_entry_def)


lemma read_pref_entry_isl: "isl (read_pref_entry e) \<longleftrightarrow> from_json_value (snd e) = None"
  by (cases e) (simp add: read_pref_entry_conv split: option.splits pref_value.splits)

text \<open>
  C4: what \<open>read_prefs_map\<close> returns: it succeeds exactly when every value of the
  document converts, and then maps each key to its converted value, except that every
  array value becomes the empty array: \<open>all\<close> consumes the whole iterator when every
  element converts, and \<open>flatten().collect()\<close> finds nothing left.
\<close>

theorem read_prefs_map_Inr_iff:
  "read_prefs_map (Some es) = Inr r \<longleftrightarrow>
     list_all (\<lambda>e. from_json_value (snd e) \<noteq> None) es \<and>
     r = map (\<lambda>(k, j). (k, case the (from_json_value j) of Array _ \<Rightarrow> Array [] | v \<Rightarrow> v)) es"
proof -
  have ok: "list_all (\<lambda>e. \<not> isl (read_pref_entry e)) es \<longleftrightarrow>
            list_all (\<lambda>e. from_json_value (snd e) \<noteq> None) es"
    by (simp add: read_pref_entry_isl)
  have "list_all (\<lambda>e. from_json_value (snd e) \<noteq> None) es \<Longrightarrow>
        map (\<lambda>e. projr (read_pref_entry e)) es =
        map (\<lambda>(k, j). (k, case the (from_json_value j) of Array _ \<Rightarrow> Array [] | v \<Rightarrow> v)) es"
    by (rule map_cong [OF refl])
       (auto simp: list_all_iff read_pref_entry_conv split: option.splits pref_value.splits)
  with ok show ?thesis
    by (auto simp: read_prefs_map_def collect_result_Inr_iff map_eq_map_Inr_iff)
qed

text \<open>
  C26: \<open>read_prefs_map\<close> fails exactly when some value of the document does not convert
  (null, an object, an integer above \<open>i64::MAX\<close>, or an array with such an element),
  whatever order the map's entries are visited in; a document that is not a JSON object
  fails with \<open>JsonParseErr\<close>.
\<close>

theorem read_prefs_map_fails_iff:
  "(isl (read_prefs_map (Some es)) \<longleftrightarrow> (\<exists>e \<in> set es. from_json_value (snd e) = None)) \<and>
   read_prefs_map None = Inl JsonParseErr"
  by (auto simp: read_prefs_map_def collect_result_isl_iff read_pref_entry_isl)

theorem read_prefs_map_fails_iff_witness:
  "(isl (read_prefs_map (Some [(''a'', JBool True), (''b'', JNull)])) \<longleftrightarrow>
     (\<exists>e \<in> set [(''a'', JBool True), (''b'', JNull)]. from_json_value (snd e) = None)) \<and>
   isl (read_prefs_map (Some [(''a'', JBool True), (''b'', JNull)]))"
  using read_prefs_map_fails_iff [of "[(''a'', JBool True), (''b'', JNull)]"] by simp

text \<open>
  C27: the error of a failing document names a value of the document that does not
  convert: a document with an array holding a non-scalar element fails as a whole with
  \<open>InvalidValue\<close> of that array, and no map is returned.
\<close>

theorem read_prefs_map_error_names_value:
  "read_prefs_map (Some es) = Inl e \<Longrightarrow>
     \<exists>kj \<in> set es. from_json_value (snd kj) = None \<and> e = InvalidValue (snd kj)"
proof -
  assume "read_prefs_map (Some es) = Inl e"
  then obtain kj where kj: "kj \<in> set es" and err: "read_pref_entry kj = Inl e"
    using collect_result_Inl_member [of read_pref_entry es e] by (auto simp: read_prefs_map_def)
  obtain k j where kj_def: "kj = (k, j)"
    by fastforce
  have "from_json_value j = None \<and> e = InvalidValue j"
    using err kj_def by (auto simp: read_pref_entry_conv split: option.splits pref_value.splits)
  then show ?thesis
    using kj kj_def by force
qed

theorem read_prefs_map_error_names_value_witness:
  "read_prefs_map (Some [(''a'', JBool True), (''b'', JArray [JBool True, JObject []])]) =
     Inl (InvalidValue (JArray [JBool True, JObject []])) \<and>
   (\<exists>kj \<in> set [(''a'', JBool True), (''b'', JArray [JBool True, JObject []])].
      from_json_value (snd kj) = None \<and> InvalidValue (JArray [JBool True, JObject []]) = InvalidValue (snd kj))"
proof -
  have r: "read_prefs_map (Some [(''a'', JBool True), (''b'', JArray [JBool True, JObject []])]) =
             Inl (InvalidValue (JArray [JBool True, JObject []]))"
    by (simp add: read_prefs_map_def read_pref_entry_def)
  show ?thesis
    using read_prefs_map_error_names_value [OF r] r by blast
qed

text \<open>
  C28: scalar values survive a round trip through a user document: a boolean, any
  \<open>i64\<close>, a finite float or a string, written as JSON and read back by the entry
  conversion of \<open>read_prefs_map\<close>, is the same value (an array is not: it comes back
  empty).
\<close>

theorem read_pref_entry_scalar_roundtrip:
  assumes "pref_value_finite v" and "\<forall>vs. v \<noteq> Array vs"
  shows "read_pref_entry (k, to_json_value v) = Inr (k, v)"
  using from_json_to_json_roundtrip [OF assms(1)] assms(2)
  by (cases v) (simp_all add: read_pref_entry_conv)

theorem read_pref_entry_scalar_roundtrip_witness:
  "pref_value_finite (Float 0x400C000000000000) \<and> (\<forall>vs. Float 0x400C000000000000 \<noteq> Array vs) \<and>
   read_pref_entry (''gfx.scale'', to_json_value (Float 0x400C000000000000)) = Inr (''gfx.scale'', Float 0x400C000000000000)"
proof -
  have f: "pref_value_finite (Float 0x400C000000000000)"
    by (simp add: f64_is_finite_def)
  show ?thesis
    using read_pref_entry_scalar_roundtrip [OF f, of "''gfx.scale''"] f by simp
qed

text \<open>
  C29: an integer of the document is accepted when it fits \<open>i64\<close>: a non-negative one
  (held by serde_json as a \<open>u64\<close>) converts to the same 64-bit value exactly when it is
  below \<open>2^63\<close>, and one from \<open>2^63\<close> to \<open>2^64 - 1\<close> is rejected as \<open>InvalidValue\<close>;
  a negative one always converts.
\<close>

theorem read_pref_entry_integer_bounds:
  "read_pref_entry (k, JNumber (PosInt v)) =
     (if unat v < 2 ^ 63 then Inr (k, IntV v) else Inl (InvalidValue (JNumber (PosInt v)))) \<and>
   read_pref_entry (k, JNumber (NegInt w)) = Inr (k, IntV w)"
  by (simp_all add: read_pref_entry_def number_is_i64_def number_as_i64_def number_is_f64_def
      i64_max_le_iff)


subsection \<open>Applying a document to the store\<close>

lemma schema_set_isl:
  assumes "schema_wf sch" and "accessors s = pref_accessors sch"
  shows "isl (snd (prefs_set s k v)) \<longleftrightarrow> \<not> set_accepts sch (k, v)"
proof (cases "pref_key_type sch k")
  case None
  then show ?thesis
    using schema_store_unknown(2) [OF assms(2) None] by (simp add: set_accepts_def)
next
  case (Some ty)
  then obtain p where leaf: "(k, p, ty) \<in> set (root_leaves sch)"
    using pref_key_type_Some [OF assms(1)] by blast
  show ?thesis
  proof (cases "has_type ty v")
    case True
    then show ?thesis
      using schema_store_set [OF assms leaf True] Some by (simp add: set_accepts_def)
  next
    case False
    then show ?thesis
      using schema_store_mismatch [OF assms leaf False] Some by (simp add: set_accepts_def)
  qed
qed

lemma schema_set_all_isl:
  assumes "schema_wf sch"
  shows "accessors s = pref_accessors sch \<Longrightarrow>
           isl (snd (prefs_set_all s kvs)) \<longleftrightarrow> \<not> list_all (set_accepts sch) kvs"
proof (induction kvs arbitrary: s)
  case Nil
  then show ?case by simp
next
  case (Cons kv kvs)
  obtain k v where kv: "kv = (k, v)" by fastforce
  obtain s' r where sr: "prefs_set s k v = (s', r)" by fastforce
  have acc: "accessors s' = pref_accessors sch"
    using prefs_set_accessors [of s k v] sr Cons.prems by simp
  have "isl r \<longleftrightarrow> \<not> set_accepts sch (k, v)"
    using schema_set_isl [OF assms Cons.prems, of k v] sr by simp
  then show ?case
    using Cons.IH [OF acc] sr kv by (cases r) auto
qed

lemma add_user_prefs_None_iff: "add_user_prefs s kvs = None \<longleftrightarrow> isl (snd (prefs_set_all s kvs))"
  by (simp add: add_user_prefs_def split: prod.splits sum.splits)

text \<open>
  C6: \<open>add_user_prefs\<close> panics exactly when some entry of the user map names no
  preference or has a value of another type than the field's, whatever the order of
  the entries; otherwise it returns the updated store.
\<close>

theorem add_user_prefs_panics_iff:
  assumes "schema_wf sch" and "accessors s = pref_accessors sch"
  shows "add_user_prefs s kvs = None \<longleftrightarrow> \<not> list_all (set_accepts sch) kvs"
  by (simp add: add_user_prefs_None_iff schema_set_all_isl [OF assms])

lemma set_accepts_leaf:
  assumes "schema_wf sch" and "set_accepts sch (k, v)"
  shows "\<exists>p ty. (k, p, ty) \<in> set (root_leaves sch) \<and> has_type ty v"
proof -
  obtain ty where ty: "pref_key_type sch k = Some ty" and tv: "has_type ty v"
    using assms(2) by (auto simp: set_accepts_def split: option.splits)
  then show ?thesis
    using pref_key_type_Some [OF assms(1) ty] by blast
qed

lemma entry_write_leaf:
  "schema_wf sch \<Longrightarrow> (k, p, ty) \<in> set (root_leaves sch) \<Longrightarrow> has_type ty v \<Longrightarrow>
   entry_write sch (k, v) t = node_set p v t"
  by (simp add: entry_write_def pref_accessors_leaf field_accessor_setter)

lemma prefs_set_all_accepted:
  assumes "schema_wf sch" and "accessors s = pref_accessors sch" and "list_all (set_accepts sch) kvs"
  shows "prefs_set_all s kvs = (s\<lparr>user_prefs := fold (entry_write sch) kvs (user_prefs s)\<rparr>, Inr ())"
  using assms(2,3)
proof (induction kvs arbitrary: s)
  case (Cons kv kvs)
  obtain k v where kv: "kv = (k, v)" by fastforce
  obtain p ty where leaf: "(k, p, ty) \<in> set (root_leaves sch)" and ty: "has_type ty v"
    using set_accepts_leaf [OF assms(1), of k v] Cons.prems(2) kv by auto
  have "prefs_set s k v = (s\<lparr>user_prefs := entry_write sch (k, v) (user_prefs s)\<rparr>, Inr ())"
    using schema_store_set [OF assms(1) Cons.prems(1) leaf ty] entry_write_leaf [OF assms(1) leaf ty] by simp
  then show ?case
    using Cons.IH [of "s\<lparr>user_prefs := entry_write sch (k, v) (user_prefs s)\<rparr>"] Cons.prems kv by simp
qed simp

lemma entry_write_commute:
  assumes "schema_wf sch" and "set_accepts sch x" and "set_accepts sch y" and "fst x = fst y \<longrightarrow> x = y"
  shows "entry_write sch x \<circ> entry_write sch y = entry_write sch y \<circ> entry_write sch x"
proof (cases "x = y")
  case False
  obtain k1 v1 k2 v2 where x: "x = (k1, v1)" and y: "y = (k2, v2)"
    by fastforce
  obtain p1 ty1 where l1: "(k1, p1, ty1) \<in> set (root_leaves sch)" and t1: "has_type ty1 v1"
    using set_accepts_leaf [OF assms(1), of k1 v1] assms(2) x by auto
  obtain p2 ty2 where l2: "(k2, p2, ty2) \<in> set (root_leaves sch)" and t2: "has_type ty2 v2"
    using set_accepts_leaf [OF assms(1), of k2 v2] assms(3) y by auto
  have "k1 \<noteq> k2"
    using assms(4) False x y by auto
  then have "\<not> prefix p1 p2" and "\<not> prefix p2 p1"
    using root_leaves_prefix_free [OF assms(1) l1 l2] root_leaves_prefix_free [OF assms(1) l2 l1]
      root_leaves_same_path [OF assms(1) l1] root_leaves_same_path [OF assms(1) l2] l1 l2
    by blast+
  then show ?thesis
    using node_set_commute x y entry_write_leaf [OF assms(1) l1 t1] entry_write_leaf [OF assms(1) l2 t2]
    by (auto simp: fun_eq_iff)
qed simp

text \<open>
  C18: the result of \<open>add_user_prefs\<close> does not depend on the order in which the
  \<open>HashMap\<close> hands out its entries: for distinct keys, any two orders of the same entries
  both panic or both leave the same store, since the writes of distinct leaves commute.
\<close>

theorem add_user_prefs_order_independent:
  assumes "schema_wf sch" and "accessors s = pref_accessors sch"
    and "distinct (map fst kvs)" and "mset kvs = mset kvs'"
  shows "add_user_prefs s kvs = add_user_prefs s kvs'"
proof (cases "list_all (set_accepts sch) kvs")
  case True
  have True': "list_all (set_accepts sch) kvs'"
    using True assms(4) by (metis list_all_iff mset_eq_setD)
  have "fold (entry_write sch) kvs = fold (entry_write sch) kvs'"
  proof (rule fold_multiset_equiv [OF _ assms(4)])
    fix x y
    assume "x \<in> set kvs" and "y \<in> set kvs"
    moreover have "fst x = fst y \<longrightarrow> x = y" if "x \<in> set kvs" and "y \<in> set kvs"
      using assms(3) that by (auto dest: inj_onD simp: distinct_map)
    ultimately show "entry_write sch x \<circ> entry_write sch y = entry_write sch y \<circ> entry_write sch x"
      using True by (intro entry_write_commute [OF assms(1)]) (auto simp: list_all_iff)
  qed
  then show ?thesis
    using prefs_set_all_accepted [OF assms(1,2) True] prefs_set_all_accepted [OF assms(1,2) True']
    by (simp add: add_user_prefs_def)
next
  case False
  have "\<not> list_all (set_accepts sch) kvs'"
    using False assms(4) by (metis list_all_iff mset_eq_setD)
  then have "add_user_prefs s kvs' = None" and "add_user_prefs s kvs = None"
    using False by (simp_all add: add_user_prefs_None_iff schema_set_all_isl [OF assms(1,2)])
  then show ?thesis
    by simp
qed

lemma read_prefs_map_scalars:
  assumes "read_prefs_map (Some es) = Inr kvs"
    and "\<forall>e \<in> set es. \<exists>v. from_json_value (snd e) = Some v \<and> (\<forall>xs. v \<noteq> Array xs)"
  shows "kvs = map (\<lambda>e. (fst e, the (from_json_value (snd e)))) es"
proof -
  have h1: "map read_pref_entry es = map Inr kvs"
    using assms(1) by (simp add: read_prefs_map_def collect_result_Inr_iff)
  have h2: "map read_pref_entry es = map Inr (map (\<lambda>e. (fst e, the (from_json_value (snd e)))) es)"
    unfolding list.map_comp
  proof (rule map_cong [OF refl])
    fix e
    assume "e \<in> set es"
    then obtain v where v: "from_json_value (snd e) = Some v" and na: "\<forall>xs. v \<noteq> Array xs"
      using assms(2) by blast
    then show "read_pref_entry e = (Inr \<circ> (\<lambda>e. (fst e, the (from_json_value (snd e))))) e"
      by (cases e) (auto simp: read_pref_entry_conv split: pref_value.splits)
  qed
  have "map (Inr :: _ \<Rightarrow> pref_error + _) kvs = map Inr (map (\<lambda>e. (fst e, the (from_json_value (snd e)))) es)"
    by (simp only: h1 [symmetric] h2)
  then show ?thesis
    using inj_map_eq_map [OF inj_Inr] by blast
qed

text \<open>
  C19: a user document whose keys are distinct (a \<open>HashMap\<close>) and whose values are all
  scalars that the table accepts is applied in full: \<open>read_prefs_map\<close> followed by
  \<open>add_user_prefs\<close> does not panic, and every key of the document then reads the value
  the document gives it. (An array value is excluded: it is read as the empty array.)
\<close>

theorem user_overrides_applied:
  assumes "prefs_conform servo_schema (user_prefs s)" and "accessors s = servo_accessors"
    and "read_prefs_map (Some es) = Inr kvs" and "distinct (map fst es)"
    and "\<forall>e \<in> set es. \<exists>v. from_json_value (snd e) = Some v \<and> (\<forall>xs. v \<noteq> Array xs) \<and>
           set_accepts servo_schema (fst e, v)"
  shows "\<exists>s'. add_user_prefs s kvs = Some s' \<and>
           (\<forall>e \<in> set es. prefs_get s' (fst e) = Inr (the (from_json_value (snd e))))"
proof -
  have kvs: "kvs = map (\<lambda>e. (fst e, the (from_json_value (snd e)))) es"
    using read_prefs_map_scalars [OF assms(3)] assms(5) by blast
  have acc: "accessors s = pref_accessors servo_schema"
    using assms(2) by (simp add: servo_accessors_def)
  have "list_all (set_accepts servo_schema) kvs"
    using assms(5) by (auto simp: kvs list_all_iff)
  then have nl: "\<not> isl (snd (prefs_set_all s kvs))"
    using schema_set_all_isl [OF servo_schema_wf acc, of kvs] by simp
  obtain s' r where sr: "prefs_set_all s kvs = (s', r)"
    by fastforce
  with nl have set: "prefs_set_all s kvs = (s', Inr ())"
    by (cases r) auto
  then have some: "add_user_prefs s kvs = Some s'"
    by (simp add: add_user_prefs_def)
  have dk: "distinct (map fst kvs)"
    using assms(4) by (simp add: kvs comp_def)
  have "prefs_get s' (fst e) = Inr (the (from_json_value (snd e)))" if e: "e \<in> set es" for e
  proof -
    have "(fst e, the (from_json_value (snd e))) \<in> set kvs"
      using e by (auto simp: kvs)
    then have "map_of (rev kvs) (fst e) = Some (the (from_json_value (snd e)))"
      using dk by (simp add: map_of_is_SomeI distinct_rev rev_map [symmetric])
    then show ?thesis
      using prefs_set_all_reads_last [OF servo_store_inv [OF assms(1,2)] set] by blast
  qed
  with some show ?thesis
    by blast
qed

text \<open>
  C5: every user override of an array preference makes \<open>add_user_prefs\<close> panic: an array
  whose elements all convert is read as the empty array, which has the wrong length for a
  fixed-size array field.
\<close>

theorem array_override_panics:
  assumes "schema_wf sch" and "accessors s = pref_accessors sch"
    and "pref_key_type sch k = Some (TyF64Array n)" and "0 < n"
    and "list_all (\<lambda>j. from_json_value j \<noteq> None) js"
  shows "read_prefs_map (Some [(k, JArray js)]) = Inr [(k, Array [])] \<and>
         add_user_prefs s [(k, Array [])] = None"
proof -
  have "from_json_value (JArray js) \<noteq> None"
    using assms(5) by (simp add: list_all_iff)
  then obtain v where v: "from_json_value (JArray js) = Some v"
    by blast
  then obtain vs where "v = Array vs"
    by auto
  with v have "read_prefs_map (Some [(k, JArray js)]) = Inr [(k, Array [])]"
    by (simp add: read_prefs_map_def read_pref_entry_conv)
  moreover have "add_user_prefs s [(k, Array [])] = None"
    using assms(3,4)
    by (simp add: add_user_prefs_None_iff schema_set_all_isl [OF assms(1,2)] set_accepts_def
        del: prefs_set_all.simps)
  ultimately show ?thesis
    by blast
qed

subsection \<open>Generated defaults\<close>

text \<open>
  C30: the default number of layout threads is three quarters of the processor count,
  rounded down and at least one, and is a positive \<open>i64\<close>, for every processor count that
  does not overflow \<open>ncpus * 3\<close>.
\<close>

theorem default_layout_threads_bounds:
  assumes "unat ncpus < 2 ^ 62"
  shows "unat (default_layout_threads ncpus) = max (unat ncpus * 3 div 4) 1 \<and>
         0 < sint (default_layout_threads ncpus)"
proof -
  have m: "unat (ncpus * 3) = unat ncpus * 3"
    using assms by (simp add: unat_mult_lem [THEN iffD1])
  have d: "unat (ncpus * 3 div 4) = unat ncpus * 3 div 4"
    by (simp add: unat_div m)
  have u: "unat (default_layout_threads ncpus) = max (unat ncpus * 3 div 4) 1"
    by (simp add: default_layout_threads_def max_def word_le_nat_alt d)
  have "unat (default_layout_threads ncpus) < 2 ^ 63" and "default_layout_threads ncpus \<noteq> 0"
    using u assms by (auto simp: unat_eq_zero [symmetric])
  moreover have "sint (default_layout_threads ncpus) \<noteq> 0 \<longleftrightarrow> default_layout_threads ncpus \<noteq> 0"
    using signed_eq_0_iff by fastforce
  ultimately have "0 < sint (default_layout_threads ncpus)"
    using sint_neg_iff_unat [of "default_layout_threads ncpus"] by linarith
  with u show ?thesis
    by blast
qed

theorem default_layout_threads_bounds_witness:
  "unat (8 :: usize) < 2 ^ 62 \<and> unat (default_layout_threads 8) = 6 \<and> 0 < sint (default_layout_threads 8)"
proof -
  have h: "unat (8 :: usize) < 2 ^ 62"
    by simp
  show ?thesis
    using default_layout_threads_bounds [OF h] h by simp
qed

end
