(* ===== verification/Loader.thy ===== *)
theory Loader
  imports Prefs_Module
begin

text \<open>
  The defaults loader: the initialiser of the \<open>lazy_static\<close> \<open>PREFS\<close> in \<open>prefs.rs\<close>,
  which reads the bundled resource \<open>Resource::Preferences\<close>, deserialises it into the
  schema type \<open>Prefs\<close> with \<open>serde_json::from_str\<close> (\<open>.expect\<close>: a failure aborts),
  and builds the store over \<open>gen::PREF_ACCESSORS\<close>.

  The derive of \<open>Deserialize\<close> that \<open>build_structs\<close> generates is not among the
  sources; the model follows the specification (section 4.4) and the serde attributes
  of \<open>mod gen\<close>: the document is one JSON object whose keys are the leaves' external
  keys (the same keys as the accessor table, \<open>resources/prefs.json\<close> is flat), a leaf
  whose key is absent takes its \<open>#[serde(default)]\<close> or \<open>#[serde(default = "f")]\<close>
  value, and is a missing-field error without one; a present value must have the
  field's type, and keys that name no field are ignored. Of repeated keys the first is
  used. The number of processors (\<open>num_cpus::get()\<close>) is a parameter.
\<close>

subsection \<open>Deserialising one field\<close>

text \<open>
  serde's \<open>Deserialize\<close> for the leaf types: \<open>i64\<close> accepts an integer that fits,
  \<open>f64\<close> accepts every number (an integer through \<open>as f64\<close>), \<open>[f64; n]\<close> accepts an
  array of exactly \<open>n\<close> numbers.
\<close>

fun deserialize_field :: "field_ty \<Rightarrow> json \<Rightarrow> pref_value option" where
  "deserialize_field TyBool (JBool b) = Some (Bool b)"
| "deserialize_field TyI64 (JNumber n) = map_option IntV (number_as_i64 n)"
| "deserialize_field TyF64 (JNumber n) = map_option Float (number_as_f64 n)"
| "deserialize_field TyString (JString s) = Some (Str s)"
| "deserialize_field (TyF64Array n) (JArray vs) =
     (if length vs = n then map_option Array (collect_option (deserialize_field TyF64) vs) else None)"
| "deserialize_field _ _ = None"

text \<open>The default suppliers named by \<open>#[serde(default = "...")]\<close> in \<open>mod gen\<close>.\<close>

definition default_fn :: "usize \<Rightarrow> string \<Rightarrow> pref_value option" where
  "default_fn ncpus f =
     (if f = ''default_layout_threads'' then Some (IntV (default_layout_threads ncpus))
      else if f = ''black'' then Some (IntV black)
      else if f = ''white'' then Some (IntV white)
      else None)"

fun field_default_value :: "usize \<Rightarrow> field_ty \<Rightarrow> field_default \<Rightarrow> pref_value option" where
  "field_default_value ncpus ty NoDefault = None"
| "field_default_value ncpus ty DefaultTrait = Some (default_of_type ty)"
| "field_default_value ncpus ty (DefaultFn f) = default_fn ncpus f"

text \<open>The value a leaf gets from the document, \<open>None\<close> for a deserialisation error.\<close>

definition load_leaf ::
  "usize \<Rightarrow> (string \<times> json) list \<Rightarrow> string \<Rightarrow> field_ty \<Rightarrow> field_default \<Rightarrow> pref_value option" where
  "load_leaf ncpus doc k ty d =
     (case map_of doc k of
        Some j \<Rightarrow> deserialize_field ty j
      | None \<Rightarrow> field_default_value ncpus ty d)"

subsection \<open>Deserialising the schema value\<close>

fun load_node :: "usize \<Rightarrow> (string \<times> json) list \<Rightarrow> string list \<Rightarrow> schema \<Rightarrow> pnode option" where
  "load_node ncpus doc pre (Leaf nm ty rn d) =
     map_option PLeaf
       (load_leaf ncpus doc (case rn of Some k \<Rightarrow> k | None \<Rightarrow> dotted (pre @ [nm])) ty d)"
| "load_node ncpus doc pre (Group nm cs) =
     map_option (\<lambda>ns. PGroup (zip (map schema_name cs) ns))
       (collect_option (load_node ncpus doc (pre @ [nm])) cs)"

definition load_prefs :: "usize \<Rightarrow> (string \<times> json) list \<Rightarrow> schema list \<Rightarrow> pnode option" where
  "load_prefs ncpus doc sch =
     map_option (\<lambda>ns. PGroup (zip (map schema_name sch) ns)) (collect_option (load_node ncpus doc []) sch)"

text \<open>
  The initialiser of \<open>PREFS\<close>: \<open>None\<close> is the panic of \<open>.expect\<close>, for a resource that
  is not a JSON object (\<open>None\<close> as the parsed document) or does not deserialise.
\<close>

definition load_defaults :: "usize \<Rightarrow> (string \<times> json) list option \<Rightarrow> pnode preferences option" where
  "load_defaults ncpus res =
     (case res of
        None \<Rightarrow> None
      | Some doc \<Rightarrow> map_option (\<lambda>t. preferences_new t servo_accessors) (load_prefs ncpus doc servo_schema))"

text \<open>
  The leaves of a schema with their default suppliers: \<open>leaves\<close> with the fourth
  component of each \<open>Leaf\<close> kept.
\<close>

fun leaf_decls ::
  "string list \<Rightarrow> schema \<Rightarrow> (string \<times> string list \<times> field_ty \<times> field_default) list" where
  "leaf_decls pre (Leaf nm ty rn d) =
     [(case rn of Some k \<Rightarrow> k | None \<Rightarrow> dotted (pre @ [nm]), [nm], ty, d)]"
| "leaf_decls pre (Group nm cs) =
     map (\<lambda>(k, p, ty, d). (k, nm # p, ty, d)) (concat (map (leaf_decls (pre @ [nm])) cs))"

definition root_decls :: "schema list \<Rightarrow> (string \<times> string list \<times> field_ty \<times> field_default) list" where
  "root_decls sch = concat (map (leaf_decls []) sch)"

text \<open>
  The default suppliers of \<open>mod gen\<close> return \<open>i64\<close>, and Rust accepts
  \<open>#[serde(default = "f")]\<close> only on a field of \<open>f\<close>'s return type.
\<close>

fun defaults_typed :: "schema \<Rightarrow> bool" where
  "defaults_typed (Leaf _ ty _ (DefaultFn _)) = (ty = TyI64)"
| "defaults_typed (Leaf _ _ _ _) = True"
| "defaults_typed (Group _ cs) = list_all defaults_typed cs"

text \<open>
  \<open>#[derive(Serialize)]\<close> of the generated \<open>Prefs\<close>: the flat object with one entry
  per leaf, in declaration order.
\<close>

definition dump_prefs :: "schema list \<Rightarrow> pnode \<Rightarrow> (string \<times> json) list" where
  "dump_prefs sch t = map (\<lambda>(k, p, ty). (k, to_json_value (the (node_get p t)))) (root_leaves sch)"

fun node_finite :: "pnode \<Rightarrow> bool" where
  "node_finite (PLeaf v) = pref_value_finite v"
| "node_finite (PGroup fs) = list_all (\<lambda>(g, n). node_finite n) fs"

subsection \<open>Lemmas: one field\<close>

lemma leaf_decls_in_leaves:
  "(k, p, ty, d) \<in> set (leaf_decls pre c) \<Longrightarrow> (k, p, ty) \<in> set (leaves pre c)"
  by (induction pre c arbitrary: k p rule: leaf_decls.induct) force+

lemma root_decls_in_root_leaves:
  "(k, p, ty, d) \<in> set (root_decls sch) \<Longrightarrow> (k, p, ty) \<in> set (root_leaves sch)"
  by (auto simp: root_decls_def root_leaves_def dest: leaf_decls_in_leaves)

lemma deserialize_f64_is_float: "deserialize_field TyF64 j = Some v \<Longrightarrow> is_float v"
  by (cases j) auto

lemma collect_option_floats:
  "collect_option (deserialize_field TyF64) vs = Some ws \<Longrightarrow> length ws = length vs \<and> list_all is_float ws"
  by (induction vs arbitrary: ws) (auto split: option.splits dest: deserialize_f64_is_float)

lemma deserialize_field_has_type: "deserialize_field ty j = Some v \<Longrightarrow> has_type ty v"
  by (cases "(ty, j)" rule: deserialize_field.cases) (auto split: if_splits dest: collect_option_floats)

lemma deserialize_to_json:
  assumes "has_type ty v" and "pref_value_finite v"
  shows "deserialize_field ty (to_json_value v) = Some v"
proof -
  have arr: "list_all is_float vs \<Longrightarrow> list_all pref_value_finite vs \<Longrightarrow>
             collect_option (deserialize_field TyF64) (map to_json_value vs) = Some vs" for vs
    by (induction vs) (auto simp: json_from_f64_def number_as_f64_def elim: is_float.elims)
  show ?thesis
    using assms arr by (cases "(ty, v)" rule: has_type.cases) (auto simp: json_from_f64_def number_as_f64_def)
qed

lemma load_leaf_has_type:
  "defaults_typed (Leaf nm ty rn d) \<Longrightarrow> load_leaf ncpus doc k ty d = Some v \<Longrightarrow> has_type ty v"
  by (cases d) (auto simp: load_leaf_def default_fn_def has_type_default deserialize_field_has_type
      split: option.splits if_splits)

lemma leaf_decls_path_head:
  "(k, p, ty, d) \<in> set (leaf_decls pre c) \<Longrightarrow> \<exists>q. p = schema_name c # q"
  using leaf_decls_in_leaves leaves_path_head by blast

lemma node_get_field [tree_simps]:
  "map_of fs g = Some n \<Longrightarrow> node_get (g # r) (PGroup fs) = node_get (g # r) (PGroup [(g, n)])"
  by simp

lemma node_get_finite: "node_get p t = Some v \<Longrightarrow> node_finite t \<Longrightarrow> pref_value_finite v"
  by (induction p t rule: node_get.induct) (auto simp: list_all_iff dest!: map_of_SomeD split: option.splits)

lemma default_node_finite: "node_finite (default_node c)"
proof (induction c)
  case (Leaf nm ty rn d)
  then show ?case by (cases ty) (auto simp: f64_is_finite_def list_all_iff)
qed (auto simp: list_all_iff)

subsection \<open>Lemmas: the schema value\<close>

lemma collect_option_map_of_zip:
  "collect_option f cs = Some ns \<Longrightarrow> distinct (map schema_name cs) \<Longrightarrow> c \<in> set cs \<Longrightarrow>
     map_of (zip (map schema_name cs) ns) (schema_name c) = f c"
  by (induction cs arbitrary: ns) (auto split: option.splits simp: rev_image_eqI)

lemma load_fields_conforms:
  "collect_option f cs = Some ns \<Longrightarrow> (\<And>c n. c \<in> set cs \<Longrightarrow> f c = Some n \<Longrightarrow> conforms c n) \<Longrightarrow>
     conforms_fields cs (zip (map schema_name cs) ns)"
  by (induction cs arbitrary: ns) (auto split: option.splits)

lemma load_node_conforms: "load_node ncpus doc pre c = Some n \<Longrightarrow> defaults_typed c \<Longrightarrow> conforms c n"
proof (induction ncpus doc pre c arbitrary: n rule: load_node.induct)
  case (1 ncpus doc pre nm ty rn d)
  then show ?case by (auto intro: load_leaf_has_type)
next
  case (2 ncpus doc pre nm cs)
  then show ?case by (auto simp: list_all_iff intro!: load_fields_conforms)
qed

lemma fields_get_step:
  assumes "collect_option f cs = Some ns" and "distinct (map schema_name cs)" and "c \<in> set cs"
    and "p = schema_name c # r" and "\<And>n. f c = Some n \<Longrightarrow> node_get p (PGroup [(schema_name c, n)]) = X"
  shows "node_get p (PGroup (zip (map schema_name cs) ns)) = X"
proof -
  obtain n where fc: "f c = Some n"
    using collect_option_Some_defined [OF assms(1,3)] by blast
  then have "map_of (zip (map schema_name cs) ns) (schema_name c) = Some n"
    using collect_option_map_of_zip [OF assms(1,2,3)] by simp
  then show ?thesis
    using assms(4,5) fc by simp
qed

lemma load_node_get:
  "load_node ncpus doc pre c = Some n \<Longrightarrow> names_distinct c \<Longrightarrow> (k, p, ty, d) \<in> set (leaf_decls pre c) \<Longrightarrow>
     node_get p (PGroup [(schema_name c, n)]) = load_leaf ncpus doc k ty d"
proof (induction ncpus doc pre c arbitrary: n k p rule: load_node.induct)
  case (1 ncpus doc pre nm ty rn d)
  then show ?case by auto
next
  case (2 ncpus doc pre nm cs)
  from 2(4) obtain c q where c: "c \<in> set cs" and p: "p = nm # q"
    and kq: "(k, q, ty, d) \<in> set (leaf_decls (pre @ [nm]) c)"
    by auto
  obtain r where q: "q = schema_name c # r"
    using leaf_decls_path_head [OF kq] by blast
  from 2(2) obtain ns where ns: "collect_option (load_node ncpus doc (pre @ [nm])) cs = Some ns"
    and n: "n = PGroup (zip (map schema_name cs) ns)"
    by auto
  have dist: "distinct (map schema_name cs)" and nd: "names_distinct c"
    using 2(3) c by (auto simp: list_all_iff)
  have "node_get q (PGroup (zip (map schema_name cs) ns)) = load_leaf ncpus doc k ty d"
    by (rule fields_get_step [OF ns dist c q]) (rule 2(1) [OF c _ nd kq])
  then show ?case
    using p n by simp
qed

lemma load_prefs_get:
  assumes "load_prefs ncpus doc sch = Some t" and "names_distinct (Group [] sch)"
    and "(k, p, ty, d) \<in> set (root_decls sch)"
  shows "node_get p t = load_leaf ncpus doc k ty d"
proof -
  from assms(3) obtain c where c: "c \<in> set sch" and kp: "(k, p, ty, d) \<in> set (leaf_decls [] c)"
    by (auto simp: root_decls_def)
  obtain r where p: "p = schema_name c # r"
    using leaf_decls_path_head [OF kp] by blast
  from assms(1) obtain ns where ns: "collect_option (load_node ncpus doc []) sch = Some ns"
    and t: "t = PGroup (zip (map schema_name sch) ns)"
    by (auto simp: load_prefs_def)
  have dist: "distinct (map schema_name sch)" and nd: "names_distinct c"
    using assms(2) c by (auto simp: list_all_iff)
  show ?thesis
    unfolding t by (rule fields_get_step [OF ns dist c p]) (rule load_node_get [OF _ nd kp])
qed

lemma load_prefs_conforms:
  assumes "load_prefs ncpus doc sch = Some t" and "list_all defaults_typed sch"
  shows "prefs_conform sch t"
proof -
  from assms(1) obtain ns where ns: "collect_option (load_node ncpus doc []) sch = Some ns"
    and t: "t = PGroup (zip (map schema_name sch) ns)"
    by (auto simp: load_prefs_def)
  have "conforms_fields sch (zip (map schema_name sch) ns)"
    by (rule load_fields_conforms [OF ns]) (use assms(2) in \<open>auto simp: list_all_iff intro: load_node_conforms\<close>)
  then show ?thesis
    by (simp add: prefs_conform_def t)
qed

lemma fields_complete_step:
  assumes "conforms_fields cs fs" and "distinct (map schema_name cs)"
    and "\<And>c n. c \<in> set cs \<Longrightarrow> map_of fs (schema_name c) = Some n \<Longrightarrow> conforms c n \<Longrightarrow> f c = Some n"
  shows "collect_option f cs = Some (map snd fs)"
  using assms
proof (induction cs arbitrary: fs)
  case Nil
  then show ?case by (cases fs) auto
next
  case (Cons c cs)
  then obtain n fs' where fs: "fs = (schema_name c, n) # fs'" and cn: "conforms c n"
    and cfs: "conforms_fields cs fs'"
    by (cases fs) auto
  have "f c = Some n"
    using Cons.prems(3) [of c n] fs cn by simp
  moreover have "collect_option f cs = Some (map snd fs')"
  proof (rule Cons.IH [OF cfs])
    show "distinct (map schema_name cs)"
      using Cons.prems(2) by simp
    fix c' n'
    assume c': "c' \<in> set cs" and "map_of fs' (schema_name c') = Some n'" and "conforms c' n'"
    have "schema_name c \<notin> schema_name ` set cs"
      using Cons.prems(2) by simp
    with c' have "schema_name c' \<noteq> schema_name c"
      by (metis imageI)
    with c' \<open>map_of fs' (schema_name c') = Some n'\<close> \<open>conforms c' n'\<close> show "f c' = Some n'"
      using Cons.prems(3) [of c' n'] fs by simp
  qed
  ultimately show ?case
    using fs by simp
qed

lemma conforms_fields_zip: "conforms_fields cs fs \<Longrightarrow> zip (map schema_name cs) (map snd fs) = fs"
  using conforms_fields_names [of cs fs] by (metis zip_map_fst_snd)

lemma load_node_complete:
  "conforms c n \<Longrightarrow> names_distinct c \<Longrightarrow>
   (\<And>k p ty d. (k, p, ty, d) \<in> set (leaf_decls pre c) \<Longrightarrow>
      load_leaf ncpus doc k ty d = node_get p (PGroup [(schema_name c, n)])) \<Longrightarrow>
   load_node ncpus doc pre c = Some n"
proof (induction ncpus doc pre c arbitrary: n rule: load_node.induct)
  case (1 ncpus doc pre nm ty rn d)
  then show ?case by (cases n) auto
next
  case (2 ncpus doc pre nm cs)
  from 2(2) obtain fs where n: "n = PGroup fs" and cfs: "conforms_fields cs fs"
    by (cases n) auto
  have dist: "distinct (map schema_name cs)"
    using 2(3) by simp
  have "collect_option (load_node ncpus doc (pre @ [nm])) cs = Some (map snd fs)"
  proof (rule fields_complete_step [OF cfs dist])
    fix c n'
    assume c: "c \<in> set cs" and fc: "map_of fs (schema_name c) = Some n'" and cn: "conforms c n'"
    have nd: "names_distinct c"
      using 2(3) c by (simp add: list_all_iff)
    show "load_node ncpus doc (pre @ [nm]) c = Some n'"
    proof (rule 2(1) [OF c cn nd])
      fix k q ty d
      assume kq: "(k, q, ty, d) \<in> set (leaf_decls (pre @ [nm]) c)"
      obtain r where q: "q = schema_name c # r"
        using leaf_decls_path_head [OF kq] by blast
      have "(k, nm # q, ty, d) \<in> set (leaf_decls pre (Group nm cs))"
        using c kq by force
      then show "load_leaf ncpus doc k ty d = node_get q (PGroup [(schema_name c, n')])"
        using 2(4) n q fc by simp
    qed
  qed
  then show ?case
    using n conforms_fields_zip [OF cfs] by simp
qed

lemma load_prefs_complete:
  assumes "prefs_conform sch t" and "names_distinct (Group [] sch)"
    and "\<And>k p ty d. (k, p, ty, d) \<in> set (root_decls sch) \<Longrightarrow> load_leaf ncpus doc k ty d = node_get p t"
  shows "load_prefs ncpus doc sch = Some t"
proof -
  from assms(1) obtain fs where t: "t = PGroup fs" and cfs: "conforms_fields sch fs"
    by (cases t) (auto simp: prefs_conform_def)
  have dist: "distinct (map schema_name sch)"
    using assms(2) by simp
  have "collect_option (load_node ncpus doc []) sch = Some (map snd fs)"
  proof (rule fields_complete_step [OF cfs dist])
    fix c n
    assume c: "c \<in> set sch" and fc: "map_of fs (schema_name c) = Some n" and cn: "conforms c n"
    have nd: "names_distinct c"
      using assms(2) c by (simp add: list_all_iff)
    show "load_node ncpus doc [] c = Some n"
    proof (rule load_node_complete [OF cn nd])
      fix k p ty d
      assume kp: "(k, p, ty, d) \<in> set (leaf_decls [] c)"
      obtain r where p: "p = schema_name c # r"
        using leaf_decls_path_head [OF kp] by blast
      have "(k, p, ty, d) \<in> set (root_decls sch)"
        using c kp by (auto simp: root_decls_def)
      then show "load_leaf ncpus doc k ty d = node_get p (PGroup [(schema_name c, n)])"
        using assms(3) t p fc by simp
    qed
  qed
  then show ?thesis
    using t conforms_fields_zip [OF cfs] by (simp add: load_prefs_def)
qed

lemma load_node_None_iff:
  "load_node ncpus doc pre c = None \<longleftrightarrow>
     (\<exists>(k, p, ty, d) \<in> set (leaf_decls pre c). load_leaf ncpus doc k ty d = None)"
proof (induction ncpus doc pre c rule: load_node.induct)
  case (2 ncpus doc pre nm cs)
  then show ?case by force
qed simp

lemma map_fst_dump_prefs: "map fst (dump_prefs sch t) = map fst (root_leaves sch)"
  by (simp add: dump_prefs_def case_prod_beta)

lemma load_leaf_dump:
  assumes "schema_wf sch" and "prefs_conform sch t" and "node_finite t"
    and "(k, p, ty, d) \<in> set (root_decls sch)"
  shows "load_leaf ncpus (dump_prefs sch t) k ty d = node_get p t"
proof -
  have leaf: "(k, p, ty) \<in> set (root_leaves sch)"
    using assms(4) by (rule root_decls_in_root_leaves)
  obtain v where v: "node_get p t = Some v" and ty: "has_type ty v"
    using root_leaves_readable [OF assms(2) schema_wf_names [OF assms(1)] leaf] by blast
  have "(k, to_json_value v) \<in> set (dump_prefs sch t)"
    using leaf v by (force simp: dump_prefs_def)
  moreover have "distinct (map fst (dump_prefs sch t))"
    using assms(1) by (simp add: map_fst_dump_prefs schema_wf_def)
  ultimately have "map_of (dump_prefs sch t) k = Some (to_json_value v)"
    by (rule map_of_is_SomeI [rotated])
  then show ?thesis
    using deserialize_to_json [OF ty node_get_finite [OF v assms(3)]] v by (simp add: load_leaf_def)
qed

text \<open>
  C10: deserialising a document into a schema value is specified leaf by leaf: it gives
  \<open>t\<close> exactly when \<open>t\<close> has the schema's type and every leaf of \<open>t\<close> holds what the
  document gives the leaf's key: the value there when present, deserialised at the leaf's
  type, and the leaf's default otherwise.
\<close>

theorem load_prefs_spec:
  assumes "names_distinct (Group [] sch)" and "list_all defaults_typed sch"
  shows "load_prefs ncpus doc sch = Some t \<longleftrightarrow>
           prefs_conform sch t \<and>
           (\<forall>(k, p, ty, d) \<in> set (root_decls sch). node_get p t = load_leaf ncpus doc k ty d)"
proof
  assume l: "load_prefs ncpus doc sch = Some t"
  show "prefs_conform sch t \<and>
        (\<forall>(k, p, ty, d) \<in> set (root_decls sch). node_get p t = load_leaf ncpus doc k ty d)"
    using load_prefs_conforms [OF l assms(2)] load_prefs_get [OF l assms(1)] by auto
next
  assume "prefs_conform sch t \<and>
          (\<forall>(k, p, ty, d) \<in> set (root_decls sch). node_get p t = load_leaf ncpus doc k ty d)"
  then show "load_prefs ncpus doc sch = Some t"
    using load_prefs_complete [OF _ assms(1)] by fastforce
qed

theorem load_prefs_spec_witness:
  "names_distinct (Group [] [Group ''layout'' [Leaf ''threads'' TyI64 None (DefaultFn ''default_layout_threads'')],
                              Group ''shell'' [Leaf ''homepage'' TyString None NoDefault]]) \<and>
   list_all defaults_typed [Group ''layout'' [Leaf ''threads'' TyI64 None (DefaultFn ''default_layout_threads'')],
                            Group ''shell'' [Leaf ''homepage'' TyString None NoDefault]] \<and>
   load_prefs 8 [(''shell.homepage'', JString ''about:blank'')]
     [Group ''layout'' [Leaf ''threads'' TyI64 None (DefaultFn ''default_layout_threads'')],
      Group ''shell'' [Leaf ''homepage'' TyString None NoDefault]] =
   Some (PGroup [(''layout'', PGroup [(''threads'', PLeaf (IntV 6))]),
                 (''shell'', PGroup [(''homepage'', PLeaf (Str ''about:blank''))])])"
proof -
  have nd: "names_distinct (Group [] [Group ''layout'' [Leaf ''threads'' TyI64 None (DefaultFn ''default_layout_threads'')],
                              Group ''shell'' [Leaf ''homepage'' TyString None NoDefault]])"
    by simp
  have dt: "list_all defaults_typed [Group ''layout'' [Leaf ''threads'' TyI64 None (DefaultFn ''default_layout_threads'')],
                            Group ''shell'' [Leaf ''homepage'' TyString None NoDefault]]"
    by simp
  have rhs: "prefs_conform [Group ''layout'' [Leaf ''threads'' TyI64 None (DefaultFn ''default_layout_threads'')],
                            Group ''shell'' [Leaf ''homepage'' TyString None NoDefault]]
               (PGroup [(''layout'', PGroup [(''threads'', PLeaf (IntV 6))]),
                        (''shell'', PGroup [(''homepage'', PLeaf (Str ''about:blank''))])]) \<and>
             (\<forall>(k, p, ty, d) \<in> set (root_decls [Group ''layout'' [Leaf ''threads'' TyI64 None (DefaultFn ''default_layout_threads'')],
                            Group ''shell'' [Leaf ''homepage'' TyString None NoDefault]]).
                node_get p (PGroup [(''layout'', PGroup [(''threads'', PLeaf (IntV 6))]),
                                    (''shell'', PGroup [(''homepage'', PLeaf (Str ''about:blank''))])]) =
                load_leaf 8 [(''shell.homepage'', JString ''about:blank'')] k ty d)"
    by (simp add: prefs_conform_def root_decls_def load_leaf_def default_fn_def default_layout_threads_def)
  show ?thesis
    using load_prefs_spec [OF nd dt] rhs nd dt by blast
qed

subsection \<open>The servo schema\<close>

lemma servo_defaults_typed: "list_all defaults_typed servo_schema"
  by code_simp

lemma load_defaults_SomeE:
  assumes "load_defaults ncpus (Some doc) = Some s"
  obtains t where "load_prefs ncpus doc servo_schema = Some t" and "s = preferences_new t servo_accessors"
  using assms by (auto simp: load_defaults_def)

lemma load_defaults_conforms:
  "load_defaults ncpus (Some doc) = Some s \<Longrightarrow> prefs_conform servo_schema (user_prefs s)"
  by (erule load_defaults_SomeE) (simp add: preferences_new_def load_prefs_conforms [OF _ servo_defaults_typed])

lemma load_prefs_dump:
  "schema_wf sch \<Longrightarrow> prefs_conform sch t \<Longrightarrow> node_finite t \<Longrightarrow> load_prefs ncpus (dump_prefs sch t) sch = Some t"
  by (rule load_prefs_complete [OF _ schema_wf_names]) (auto intro: load_leaf_dump)

lemma load_prefs_None_iff:
  "load_prefs ncpus doc sch = None \<longleftrightarrow>
     (\<exists>(k, p, ty, d) \<in> set (root_decls sch). load_leaf ncpus doc k ty d = None)"
  by (force simp: load_prefs_def root_decls_def load_node_None_iff)

lemma servo_default_node_conforms: "prefs_conform servo_schema (default_node (Group [] servo_schema))"
  by (simp add: prefs_conform_def conforms_default_node del: default_node.simps)

lemma load_defaults_dump_default:
  "load_defaults ncpus (Some (dump_prefs servo_schema (default_node (Group [] servo_schema)))) =
     Some (preferences_new (default_node (Group [] servo_schema)) servo_accessors)"
  using load_prefs_dump [OF servo_schema_wf servo_default_node_conforms default_node_finite]
  by (simp add: load_defaults_def del: default_node.simps)

text \<open>The store \<open>PREFS\<close> is initialised with meets the store's invariant.\<close>

lemma load_defaults_inv:
  assumes "load_defaults ncpus res = Some s"
  shows "prefs_inv (prefs_conform servo_schema) s \<and> accessors s = servo_accessors"
proof -
  obtain doc where res: "res = Some doc"
    using assms by (cases res) (auto simp: load_defaults_def)
  have acc: "accessors s = servo_accessors"
    using assms res by (auto simp: load_defaults_def preferences_new_def)
  show ?thesis
    using servo_store_inv [OF load_defaults_conforms acc] assms res acc by simp
qed

text \<open>
  C7: every key of the table reads, in the store \<open>PREFS\<close> is initialised with, the value
  the resource gives it: the deserialised value when the key is present, the field's
  default supplier's value when it is absent.
\<close>

theorem load_defaults_reads_document:
  assumes "load_defaults ncpus (Some doc) = Some s"
    and "(k, p, ty, d) \<in> set (root_decls servo_schema)"
  shows "load_leaf ncpus doc k ty d \<noteq> None \<and> prefs_get s k = Inr (the (load_leaf ncpus doc k ty d))"
proof -
  obtain t where t: "load_prefs ncpus doc servo_schema = Some t" and s: "s = preferences_new t servo_accessors"
    using assms(1) by (rule load_defaults_SomeE)
  have leaf: "(k, p, ty) \<in> set (root_leaves servo_schema)"
    using assms(2) by (rule root_decls_in_root_leaves)
  have get: "node_get p t = load_leaf ncpus doc k ty d"
    using load_prefs_get [OF t schema_wf_names [OF servo_schema_wf] assms(2)] .
  have "prefs_conform servo_schema t"
    using load_defaults_conforms [OF assms(1)] s by (simp add: preferences_new_def)
  then have "node_get p t \<noteq> None"
    using root_leaves_readable [OF _ schema_wf_names [OF servo_schema_wf] leaf] by blast
  moreover have "prefs_get s k = Inr (the (node_get p t))"
    using schema_store_get [OF servo_schema_wf _ leaf, of s] s
    by (simp add: preferences_new_def servo_accessors_def)
  ultimately show ?thesis
    using get by simp
qed

theorem load_defaults_reads_document_witness:
  "\<exists>s. load_defaults 8 (Some (dump_prefs servo_schema (default_node (Group [] servo_schema)))) = Some s \<and>
       (''layout.threads'', [''layout'', ''threads''], TyI64, DefaultFn ''default_layout_threads'')
         \<in> set (root_decls servo_schema) \<and>
       load_leaf 8 (dump_prefs servo_schema (default_node (Group [] servo_schema))) ''layout.threads'' TyI64
         (DefaultFn ''default_layout_threads'') \<noteq> None \<and>
       prefs_get s ''layout.threads'' =
         Inr (the (load_leaf 8 (dump_prefs servo_schema (default_node (Group [] servo_schema)))
           ''layout.threads'' TyI64 (DefaultFn ''default_layout_threads'')))"
proof -
  note ld = load_defaults_dump_default [of 8]
  have mem: "(''layout.threads'', [''layout'', ''threads''], TyI64, DefaultFn ''default_layout_threads'')
               \<in> set (root_decls servo_schema)"
    by code_simp
  show ?thesis
    using load_defaults_reads_document [OF ld mem] ld mem by blast
qed

text \<open>
  C8: initialising \<open>PREFS\<close> panics exactly when the resource is not a JSON object, or
  some leaf of the schema gets no value: its key is present with a value of another type,
  or absent and the field has no default supplier.
\<close>

theorem load_defaults_fails_iff:
  "load_defaults ncpus res = None \<longleftrightarrow>
     res = None \<or>
     (\<exists>doc. res = Some doc \<and> (\<exists>(k, p, ty, d) \<in> set (root_decls servo_schema). load_leaf ncpus doc k ty d = None))"
  by (cases res) (simp_all add: load_defaults_def load_prefs_None_iff)

theorem load_defaults_fails_iff_witness:
  "(load_defaults 8 (Some []) = None \<longleftrightarrow>
     Some [] = None \<or>
     (\<exists>doc. Some [] = Some doc \<and>
        (\<exists>(k, p, ty, d) \<in> set (root_decls servo_schema). load_leaf 8 doc k ty d = None))) \<and>
   (''devtools.server.enabled'', [''devtools'', ''server'', ''enabled''], TyBool, NoDefault)
     \<in> set (root_decls servo_schema) \<and>
   load_leaf 8 [] ''devtools.server.enabled'' TyBool NoDefault = None \<and>
   load_defaults 8 (Some []) = None"
proof -
  have mem: "(''devtools.server.enabled'', [''devtools'', ''server'', ''enabled''], TyBool, NoDefault)
               \<in> set (root_decls servo_schema)"
    by code_simp
  have none: "load_leaf 8 [] ''devtools.server.enabled'' TyBool NoDefault = None"
    by (simp add: load_leaf_def)
  show ?thesis
    using load_defaults_fails_iff [of 8 "Some []"] mem none by fastforce
qed

text \<open>
  C9: the serialised form of a store value loads back to the same value: dumping a value
  that conforms to the schema and whose floats are finite as a flat JSON object, and
  initialising \<open>PREFS\<close> from it, gives a store holding that value.
\<close>

theorem load_defaults_dump_roundtrip:
  assumes "prefs_conform servo_schema t" and "node_finite t"
  shows "map_option user_prefs (load_defaults ncpus (Some (dump_prefs servo_schema t))) = Some t"
  using load_prefs_dump [OF servo_schema_wf assms] by (simp add: load_defaults_def preferences_new_def)

theorem load_defaults_dump_roundtrip_witness:
  "prefs_conform servo_schema (default_node (Group [] servo_schema)) \<and>
   node_finite (default_node (Group [] servo_schema)) \<and>
   map_option user_prefs
     (load_defaults 8 (Some (dump_prefs servo_schema (default_node (Group [] servo_schema))))) =
   Some (default_node (Group [] servo_schema))"
  using load_defaults_dump_roundtrip [OF servo_default_node_conforms default_node_finite]
    servo_default_node_conforms default_node_finite by blast

end
