(* ===== verification/Concurrency.thy ===== *)
theory Concurrency
  imports Loader
begin

text \<open>
  The process-wide store and its concurrent use. \<open>PREFS\<close> is a \<open>lazy_static\<close>: the
  first thread that dereferences it runs the initialiser (\<open>load_defaults\<close>), the others
  wait for it, and a panic of the initialiser poisons it, so that every later
  dereference panics as well. The value is behind a \<open>RwLock\<close> (inside
  \<open>Preferences\<close>): any number of readers or one writer.

  Each thread runs calls one after the other; a call is one of the static macros
  \<open>pref!\<close>/\<open>set_pref!\<close>, the dynamic \<open>get\<close>/\<open>set\<close>, or \<open>add_user_prefs\<close>. A call
  first dereferences \<open>PREFS\<close> (\<open>pref_map()\<close>), then, for the dynamic calls, looks the
  key up in the accessor table without the lock, then takes the read or write guard,
  runs its critical section and drops the guard at the end of the statement.
  \<open>add_user_prefs\<close> calls \<open>set_all\<close>, which applies the entries one at a time through
  \<open>set\<close>, each under its own write guard (specification, section 4.3), and panics on
  the first error. The steps of all threads interleave in any order: the step relation
  \<open>conc_step\<close> has one rule per kind of step of one thread.

  The lemmas show the invariant of the lock, the cell and the store, the serialisation of
  the writes, progress (every reachable state can run until every started call is
  finished), the run of one \<open>add_user_prefs\<close> alone against the sequential
  \<open>set_all\<close>, and a run in which a reader observes an override half applied.
\<close>

datatype call =
    PrefRead "string list"
  | PrefWrite "string list" pref_value
  | Get string
  | Set string pref_value
  | AddUserPrefs "(string \<times> pref_value) list"

datatype tstate =
    Idle
  | Deref call
  | Waiting call
  | Reading call
  | Writing call
  | Panicked

text \<open>\<open>std::sync::RwLock\<close>: unlocked, held by \<open>n\<close> readers, or held by one writer.\<close>

datatype rwlock = Unlocked | ReadLocked nat | WriteLocked

text \<open>The \<open>lazy_static\<close> cell of \<open>PREFS\<close>.\<close>

datatype cell = Uninit | Ready "pnode preferences" | Poisoned

record sys =
  prefs_cell :: cell
  lock :: rwlock
  threads :: "tstate list"

definition sys_init :: "nat \<Rightarrow> sys" where
  "sys_init n = \<lparr>prefs_cell = Uninit, lock = Unlocked, threads = replicate n Idle\<rparr>"

subsection \<open>The calls\<close>

text \<open>
  Rust compiles \<open>pref!(a.b.c)\<close> only for a path that names a field, and
  \<open>set_pref!(a.b.c, v)\<close> only for a value of the field's type.
\<close>

fun call_ok :: "call \<Rightarrow> bool" where
  "call_ok (PrefRead p) = list_ex (\<lambda>(k, q, ty). q = p) (root_leaves servo_schema)"
| "call_ok (PrefWrite p v) = list_ex (\<lambda>(k, q, ty). q = p \<and> has_type ty v) (root_leaves servo_schema)"
| "call_ok _ = True"

fun is_read_call :: "call \<Rightarrow> bool" where
  "is_read_call (PrefRead _) = True"
| "is_read_call (Get _) = True"
| "is_read_call _ = False"

text \<open>
  Whether the call takes the guard: \<open>get\<close> and \<open>set\<close> return \<open>NoSuchPref\<close> before
  locking when the key is not in the table, and so does the \<open>set\<close> of the next entry of
  \<open>set_all\<close>; \<open>set_all\<close> of no entries takes no guard.
\<close>

fun needs_lock :: "pnode preferences \<Rightarrow> call \<Rightarrow> bool" where
  "needs_lock st (Get k) = (accessors st k \<noteq> None)"
| "needs_lock st (Set k _) = (accessors st k \<noteq> None)"
| "needs_lock st (AddUserPrefs []) = False"
| "needs_lock st (AddUserPrefs ((k, _) # _)) = (accessors st k \<noteq> None)"
| "needs_lock st _ = True"

text \<open>What a thread does after a call that took no guard: \<open>add_user_prefs\<close> panics on the
  \<open>NoSuchPref\<close> of an entry.\<close>

fun skip_next :: "call \<Rightarrow> tstate" where
  "skip_next (AddUserPrefs (_ # _)) = Panicked"
| "skip_next _ = Idle"

text \<open>The critical section of a write call: the new store and the thread's next state.\<close>

fun write_effect :: "call \<Rightarrow> pnode preferences \<Rightarrow> pnode preferences \<times> tstate" where
  "write_effect (PrefWrite p v) st = (set_pref_static p v st, Idle)"
| "write_effect (Set k v) st = (fst (prefs_set st k v), Idle)"
| "write_effect (AddUserPrefs ((k, v) # rest)) st =
     (case prefs_set st k v of
        (st', Inl _) \<Rightarrow> (st', Panicked)
      | (st', Inr _) \<Rightarrow> (st', if rest = [] then Idle else Waiting (AddUserPrefs rest)))"
| "write_effect _ st = (st, Idle)"

fun rw_add_reader :: "rwlock \<Rightarrow> rwlock" where
  "rw_add_reader Unlocked = ReadLocked 1"
| "rw_add_reader (ReadLocked n) = ReadLocked (Suc n)"
| "rw_add_reader WriteLocked = WriteLocked"

fun rw_remove_reader :: "rwlock \<Rightarrow> rwlock" where
  "rw_remove_reader (ReadLocked (Suc 0)) = Unlocked"
| "rw_remove_reader (ReadLocked (Suc n)) = ReadLocked n"
| "rw_remove_reader l = l"

subsection \<open>The steps\<close>

inductive conc_step :: "usize \<Rightarrow> (string \<times> json) list option \<Rightarrow> sys \<Rightarrow> sys \<Rightarrow> bool"
  for ncpus res where
  call:
    "i < length (threads s) \<Longrightarrow> threads s ! i = Idle \<Longrightarrow> call_ok c \<Longrightarrow>
     conc_step ncpus res s (s\<lparr>threads := (threads s)[i := Deref c]\<rparr>)"
| init_ok:
    "i < length (threads s) \<Longrightarrow> threads s ! i = Deref c \<Longrightarrow> prefs_cell s = Uninit \<Longrightarrow>
     load_defaults ncpus res = Some st \<Longrightarrow>
     conc_step ncpus res s (s\<lparr>prefs_cell := Ready st, threads := (threads s)[i := Waiting c]\<rparr>)"
| init_fail:
    "i < length (threads s) \<Longrightarrow> threads s ! i = Deref c \<Longrightarrow> prefs_cell s = Uninit \<Longrightarrow>
     load_defaults ncpus res = None \<Longrightarrow>
     conc_step ncpus res s (s\<lparr>prefs_cell := Poisoned, threads := (threads s)[i := Panicked]\<rparr>)"
| deref:
    "i < length (threads s) \<Longrightarrow> threads s ! i = Deref c \<Longrightarrow> prefs_cell s = Ready st \<Longrightarrow>
     conc_step ncpus res s (s\<lparr>threads := (threads s)[i := Waiting c]\<rparr>)"
| deref_poisoned:
    "i < length (threads s) \<Longrightarrow> threads s ! i = Deref c \<Longrightarrow> prefs_cell s = Poisoned \<Longrightarrow>
     conc_step ncpus res s (s\<lparr>threads := (threads s)[i := Panicked]\<rparr>)"
| skip:
    "i < length (threads s) \<Longrightarrow> threads s ! i = Waiting c \<Longrightarrow> prefs_cell s = Ready st \<Longrightarrow>
     \<not> needs_lock st c \<Longrightarrow>
     conc_step ncpus res s (s\<lparr>threads := (threads s)[i := skip_next c]\<rparr>)"
| acquire_read:
    "i < length (threads s) \<Longrightarrow> threads s ! i = Waiting c \<Longrightarrow> prefs_cell s = Ready st \<Longrightarrow>
     needs_lock st c \<Longrightarrow> is_read_call c \<Longrightarrow> lock s \<noteq> WriteLocked \<Longrightarrow>
     conc_step ncpus res s (s\<lparr>lock := rw_add_reader (lock s), threads := (threads s)[i := Reading c]\<rparr>)"
| release_read:
    "i < length (threads s) \<Longrightarrow> threads s ! i = Reading c \<Longrightarrow>
     conc_step ncpus res s (s\<lparr>lock := rw_remove_reader (lock s), threads := (threads s)[i := Idle]\<rparr>)"
| acquire_write:
    "i < length (threads s) \<Longrightarrow> threads s ! i = Waiting c \<Longrightarrow> prefs_cell s = Ready st \<Longrightarrow>
     needs_lock st c \<Longrightarrow> \<not> is_read_call c \<Longrightarrow> lock s = Unlocked \<Longrightarrow>
     conc_step ncpus res s (s\<lparr>lock := WriteLocked, threads := (threads s)[i := Writing c]\<rparr>)"
| release_write:
    "i < length (threads s) \<Longrightarrow> threads s ! i = Writing c \<Longrightarrow> prefs_cell s = Ready st \<Longrightarrow>
     write_effect c st = (st', nxt) \<Longrightarrow>
     conc_step ncpus res s
       (s\<lparr>prefs_cell := Ready st', lock := Unlocked, threads := (threads s)[i := nxt]\<rparr>)"

inductive reach :: "usize \<Rightarrow> (string \<times> json) list option \<Rightarrow> nat \<Rightarrow> sys \<Rightarrow> bool"
  for ncpus res n where
  start: "reach ncpus res n (sys_init n)"
| step: "reach ncpus res n s \<Longrightarrow> conc_step ncpus res s t \<Longrightarrow> reach ncpus res n t"

text \<open>A resource that loads: the serialised form of the value with every leaf at its
  type's default.\<close>

abbreviation default_resource :: "(string \<times> json) list" where
  "default_resource \<equiv> dump_prefs servo_schema (default_node (Group [] servo_schema))"

abbreviation default_store :: "pnode preferences" where
  "default_store \<equiv> preferences_new (default_node (Group [] servo_schema)) servo_accessors"

subsection \<open>Invariants\<close>

fun is_reading :: "tstate \<Rightarrow> bool" where
  "is_reading (Reading _) = True"
| "is_reading _ = False"

fun is_writing :: "tstate \<Rightarrow> bool" where
  "is_writing (Writing _) = True"
| "is_writing _ = False"

text \<open>A thread that has dereferenced \<open>PREFS\<close> and not finished its call.\<close>

fun past_deref :: "tstate \<Rightarrow> bool" where
  "past_deref (Waiting _) = True"
| "past_deref (Reading _) = True"
| "past_deref (Writing _) = True"
| "past_deref _ = False"

fun thread_call_ok :: "tstate \<Rightarrow> bool" where
  "thread_call_ok (Deref c) = call_ok c"
| "thread_call_ok (Waiting c) = call_ok c"
| "thread_call_ok (Reading c) = call_ok c"
| "thread_call_ok (Writing c) = call_ok c"
| "thread_call_ok _ = True"

fun is_ready :: "cell \<Rightarrow> bool" where
  "is_ready (Ready _) = True"
| "is_ready _ = False"

definition readers :: "sys \<Rightarrow> nat" where
  "readers s = length (filter is_reading (threads s))"

definition writers :: "sys \<Rightarrow> nat" where
  "writers s = length (filter is_writing (threads s))"

text \<open>The lock's state counts the threads in their critical sections.\<close>

definition lock_inv :: "sys \<Rightarrow> bool" where
  "lock_inv s \<longleftrightarrow>
     (case lock s of
        Unlocked \<Rightarrow> readers s = 0 \<and> writers s = 0
      | ReadLocked n \<Rightarrow> readers s = n \<and> 0 < n \<and> writers s = 0
      | WriteLocked \<Rightarrow> readers s = 0 \<and> writers s = 1)"

text \<open>A thread is past the dereference only once the cell holds a store, and every
  thread's call is one that Rust compiles.\<close>

definition cell_inv :: "sys \<Rightarrow> bool" where
  "cell_inv s \<longleftrightarrow>
     list_all (\<lambda>t. past_deref t \<longrightarrow> is_ready (prefs_cell s)) (threads s) \<and>
     list_all thread_call_ok (threads s)"

text \<open>The store in the cell meets the store's invariant over the servo table.\<close>

definition store_inv :: "sys \<Rightarrow> bool" where
  "store_inv s \<longleftrightarrow>
     (case prefs_cell s of
        Ready st \<Rightarrow> prefs_inv (prefs_conform servo_schema) st \<and> accessors st = servo_accessors
      | _ \<Rightarrow> True)"

definition sys_inv :: "sys \<Rightarrow> bool" where
  "sys_inv s \<longleftrightarrow> lock_inv s \<and> cell_inv s \<and> store_inv s"

text \<open>
  The steps a thread still has to take in its current call: three per entry of
  \<open>add_user_prefs\<close> (look-up, acquire, write) and three for every other call,
  counted from the dereference of \<open>PREFS\<close>.
\<close>

fun call_work :: "call \<Rightarrow> nat" where
  "call_work (AddUserPrefs kvs) = 3 * length kvs"
| "call_work _ = 3"

fun call_measure :: "tstate \<Rightarrow> nat" where
  "call_measure (Deref c) = call_work c + 3"
| "call_measure (Waiting c) = call_work c + 2"
| "call_measure (Reading c) = call_work c + 1"
| "call_measure (Writing c) = call_work c + 1"
| "call_measure _ = 0"

text \<open>A thread that is not in a call: idle, or stopped by a panic.\<close>

fun finished :: "tstate \<Rightarrow> bool" where
  "finished Idle = True"
| "finished Panicked = True"
| "finished _ = False"

text \<open>The steps all threads still have to take in their current calls.\<close>

definition work_left :: "sys \<Rightarrow> nat" where
  "work_left s = sum_list (map call_measure (threads s))"

subsection \<open>Lemmas: one step\<close>

lemma rw_remove_reader_ReadLocked:
  assumes "0 < n"
  shows "rw_remove_reader (ReadLocked n) = (if n = 1 then Unlocked else ReadLocked (n - 1))"
proof -
  obtain m where "n = Suc m"
    using assms by (cases n) auto
  then show ?thesis
    by (cases m) auto
qed

lemma readers_pos: "i < length ts \<Longrightarrow> ts ! i = Reading c \<Longrightarrow> 0 < length (filter is_reading ts)"
  using length_filter_pos [of i ts is_reading] by simp

lemma writers_pos: "i < length ts \<Longrightarrow> ts ! i = Writing c \<Longrightarrow> 0 < length (filter is_writing ts)"
  using length_filter_pos [of i ts is_writing] by simp

lemma skip_next_idle:
  "\<not> is_reading (skip_next c) \<and> \<not> is_writing (skip_next c) \<and> \<not> past_deref (skip_next c) \<and>
   thread_call_ok (skip_next c)"
  by (cases c rule: skip_next.cases) auto

lemma skip_next_measure [simp]: "call_measure (skip_next c) = 0"
  by (cases c rule: skip_next.cases) auto

lemma write_effect_next:
  "write_effect c st = (st', nxt) \<Longrightarrow> \<not> is_reading nxt \<and> \<not> is_writing nxt \<and> thread_call_ok nxt"
  by (cases "(c, st)" rule: write_effect.cases) (auto split: prod.splits sum.splits if_splits)

lemma write_effect_set:
  assumes "write_effect c st = (st', nxt)" and "accessors st = servo_accessors" and "call_ok c"
  shows "st' = st \<or> (\<exists>k v. st' = fst (prefs_set st k v))"
proof (cases "(c, st)" rule: write_effect.cases)
  case (1 p v st0)
  then obtain k ty where leaf: "(k, p, ty) \<in> set (root_leaves servo_schema)" and ty: "has_type ty v"
    using assms(3) by (auto simp: list_ex_iff)
  have "prefs_set st k v = (set_pref_static p v st, Inr ())"
    using schema_store_set [OF servo_schema_wf _ leaf ty, of st] assms(2)
    by (simp add: servo_accessors_def set_pref_static_def)
  then have "st' = fst (prefs_set st k v)"
    using assms(1) 1 by simp
  then show ?thesis
    by blast
qed (use assms(1) in \<open>auto split: prod.splits sum.splits, (metis fst_conv)+\<close>)

lemma conc_step_lock_inv: "conc_step ncpus res s t \<Longrightarrow> lock_inv s \<Longrightarrow> lock_inv t"
proof (induction rule: conc_step.induct)
  case (release_read i s c)
  have pos: "0 < readers s"
    using readers_pos [OF release_read(1,2)] by (simp add: readers_def)
  with release_read(3) obtain n where l: "lock s = ReadLocked n" and n: "n = readers s"
    and w: "writers s = 0"
    by (auto simp: lock_inv_def split: rwlock.splits)
  let ?t = "s\<lparr>lock := rw_remove_reader (lock s), threads := (threads s)[i := Idle]\<rparr>"
  have "readers ?t = readers s - 1" and "writers ?t = writers s"
    using release_read(1,2) by (simp_all add: readers_def writers_def length_filter_list_update)
  then show ?case
    using l n w pos by (auto simp: lock_inv_def rw_remove_reader_ReadLocked)
next
  case (release_write i s c st st' nxt)
  then show ?case
    using writers_pos [OF release_write(1,2)] write_effect_next [OF release_write(4)]
    by (auto simp: lock_inv_def readers_def writers_def length_filter_list_update split: rwlock.splits)
qed (auto simp: lock_inv_def readers_def writers_def length_filter_list_update skip_next_idle
     split: rwlock.splits)

lemma conc_step_cell_inv: "conc_step ncpus res s t \<Longrightarrow> cell_inv s \<Longrightarrow> cell_inv t"
proof (induction rule: conc_step.induct)
  case (init_ok i s c st)
  have "thread_call_ok (threads s ! i)"
    using init_ok(1,5) by (simp add: cell_inv_def list_all_length)
  then show ?case
    using init_ok by (auto simp: cell_inv_def list.pred_True intro!: list_all_list_update)
next
  case (init_fail i s c)
  then show ?case
    by (auto simp: cell_inv_def list_all_length nth_list_update)
next
  case (release_write i s c st st' nxt)
  then show ?case
    using write_effect_next [OF release_write(4)]
    by (auto simp: cell_inv_def list.pred_True intro!: list_all_list_update)
qed (auto simp: cell_inv_def list_all_length nth_list_update skip_next_idle)

lemma conc_step_store_inv:
  "conc_step ncpus res s t \<Longrightarrow> cell_inv s \<Longrightarrow> store_inv s \<Longrightarrow> store_inv t"
proof (induction rule: conc_step.induct)
  case (init_ok i s c st)
  then show ?case
    using load_defaults_inv [OF init_ok(4)] by (simp add: store_inv_def)
next
  case (release_write i s c st st' nxt)
  have inv: "prefs_inv (prefs_conform servo_schema) st" and acc: "accessors st = servo_accessors"
    using release_write(3,6) by (simp_all add: store_inv_def)
  have "call_ok c"
    using release_write(1,2,5) by (auto simp: cell_inv_def list_all_length)
  then have "st' = st \<or> (\<exists>k v. st' = fst (prefs_set st k v))"
    by (rule write_effect_set [OF release_write(4) acc])
  then show ?case
    using inv acc prefs_set_preserves_inv by (auto simp: store_inv_def)
qed (simp_all add: store_inv_def)

lemma conc_step_sys_inv: "conc_step ncpus res s t \<Longrightarrow> sys_inv s \<Longrightarrow> sys_inv t"
  by (simp add: sys_inv_def conc_step_lock_inv conc_step_cell_inv conc_step_store_inv)

lemma sys_init_inv: "sys_inv (sys_init n)"
  by (simp add: sys_inv_def lock_inv_def cell_inv_def store_inv_def readers_def writers_def
      sys_init_def list_all_iff)

lemma reach_sys_inv: "reach ncpus res n s \<Longrightarrow> sys_inv s"
  by (induction rule: reach.induct) (auto intro: sys_init_inv conc_step_sys_inv)

lemma lock_inv_exclusive:
  assumes "lock_inv s" and "i < length (threads s)" and "j < length (threads s)"
    and "is_writing (threads s ! i)" and "is_reading (threads s ! j) \<or> is_writing (threads s ! j)"
  shows "i = j"
proof (rule ccontr)
  assume ij: "i \<noteq> j"
  have "0 < writers s"
    using length_filter_pos [of i "threads s" is_writing] assms(2,4) by (simp add: writers_def)
  then have l: "readers s = 0 \<and> writers s = 1"
    using assms(1) by (auto simp: lock_inv_def split: rwlock.splits)
  show False
  proof (cases "is_reading (threads s ! j)")
    case True
    then show False
      using length_filter_pos [of j "threads s" is_reading] assms(3) True l by (simp add: readers_def)
  next
    case False
    then have "2 \<le> writers s"
      using length_filter_two [of i "threads s" j is_writing] assms(2,3,4,5) ij by (simp add: writers_def)
    then show False
      using l by simp
  qed
qed

lemma cell_inv_past_deref:
  "cell_inv s \<Longrightarrow> i < length (threads s) \<Longrightarrow> past_deref (threads s ! i) \<Longrightarrow> is_ready (prefs_cell s)"
  by (auto simp: cell_inv_def list_all_length)

lemma write_effect_accessors:
  "write_effect c st = (st', nxt) \<Longrightarrow> accessors st' = accessors st"
  by (cases "(c, st)" rule: write_effect.cases)
     (auto simp: set_pref_static_def split: prod.splits sum.splits dest: arg_cong [where f = "accessors \<circ> fst"])

lemma write_effect_measure:
  "write_effect c st = (st', nxt) \<Longrightarrow> call_measure nxt < Suc (call_work c)"
  by (cases "(c, st)" rule: write_effect.cases) (auto split: prod.splits sum.splits if_splits)


lemma servo_threads_leaf: "(''layout.threads'', [''layout'', ''threads''], TyI64) \<in> set (root_leaves servo_schema)"
  by code_simp

lemma default_store_threads: "accessors default_store ''layout.threads'' \<noteq> None"
  using servo_accessors_leaf [OF servo_threads_leaf] by (simp add: preferences_new_def)

text \<open>Runs of one thread from the start, used as examples below.\<close>

lemma reach_deref:
  "call_ok c \<Longrightarrow>
   reach ncpus (Some default_resource) 1 \<lparr>prefs_cell = Uninit, lock = Unlocked, threads = [Deref c]\<rparr>"
  using reach.step [OF reach.start conc_step.call [where i = 0 and s = "sys_init 1" and c = c]] by (simp add: sys_init_def)

lemma reach_waiting:
  "call_ok c \<Longrightarrow>
   reach ncpus (Some default_resource) 1 \<lparr>prefs_cell = Ready default_store, lock = Unlocked, threads = [Waiting c]\<rparr>"
  using reach.step [OF reach_deref conc_step.init_ok [where i = 0 and c = c and st = default_store]]
    load_defaults_dump_default
  by simp

lemma reach_writing:
  "reach ncpus (Some default_resource) 1
     \<lparr>prefs_cell = Ready default_store, lock = WriteLocked, threads = [Writing (Set ''layout.threads'' v)]\<rparr>"
  using reach.step [OF reach_waiting conc_step.acquire_write [where i = 0 and c = "Set ''layout.threads'' v" and st = default_store]]
    default_store_threads
  by simp

lemma reach_reading:
  "reach ncpus (Some default_resource) 1
     \<lparr>prefs_cell = Ready default_store, lock = ReadLocked 1, threads = [Reading (Get ''layout.threads'')]\<rparr>"
  using reach.step [OF reach_waiting conc_step.acquire_read [where i = 0 and c = "Get ''layout.threads''" and st = default_store]]
    default_store_threads
  by simp

lemma needs_lock_accessors: "accessors st' = accessors st \<Longrightarrow> needs_lock st' c = needs_lock st c"
  by (cases "(st, c)" rule: needs_lock.cases) auto

lemma acquire_possible:
  "sys_inv s \<Longrightarrow> readers s + writers s = m \<Longrightarrow> i < length (threads s) \<Longrightarrow> threads s ! i = Waiting c \<Longrightarrow>
   prefs_cell s = Ready st \<Longrightarrow> needs_lock st c \<Longrightarrow>
   \<exists>t. (conc_step ncpus res)\<^sup>*\<^sup>* s t \<and> (threads t ! i = Reading c \<or> threads t ! i = Writing c)"
proof (induction m arbitrary: s st)
  case 0
  then have l: "lock s = Unlocked"
    by (auto simp: sys_inv_def lock_inv_def split: rwlock.splits)
  show ?case
  proof (cases "is_read_call c")
    case True
    let ?t = "s\<lparr>lock := rw_add_reader (lock s), threads := (threads s)[i := Reading c]\<rparr>"
    have "conc_step ncpus res s ?t"
      by (rule conc_step.acquire_read [OF 0(3-6) True]) (simp add: l)
    moreover have "threads ?t ! i = Reading c"
      using 0(3) by simp
    ultimately show ?thesis
      by blast
  next
    case False
    let ?t = "s\<lparr>lock := WriteLocked, threads := (threads s)[i := Writing c]\<rparr>"
    have "conc_step ncpus res s ?t"
      by (rule conc_step.acquire_write [OF 0(3-6) False l])
    moreover have "threads ?t ! i = Writing c"
      using 0(3) by simp
    ultimately show ?thesis
      by blast
  qed
next
  case (Suc m)
  have "0 < length (filter is_reading (threads s)) \<or> 0 < length (filter is_writing (threads s))"
    using Suc.prems(2) unfolding readers_def writers_def by linarith
  then obtain j where j: "j < length (threads s)"
    and hold: "is_reading (threads s ! j) \<or> is_writing (threads s ! j)"
    by (metis length_filter_pos_index)
  have ji: "j \<noteq> i"
    using hold Suc.prems(4) by auto
  obtain t st' where step: "conc_step ncpus res s t" and ready: "prefs_cell t = Ready st'"
    and acc: "accessors st' = accessors st" and tj: "threads t = (threads s)[j := threads t ! j]"
    and cnt: "readers t + writers t = m"
  proof (cases "threads s ! j")
    case (Reading c')
    let ?t = "s\<lparr>lock := rw_remove_reader (lock s), threads := (threads s)[j := Idle]\<rparr>"
    have "conc_step ncpus res s ?t"
      using j Reading by (rule conc_step.release_read)
    moreover have "readers ?t + writers ?t = m"
      using Suc.prems(2) j Reading readers_pos [OF j Reading]
      by (simp add: readers_def writers_def length_filter_list_update del: length_greater_0_conv)
    ultimately show ?thesis
      using that Suc.prems(5) j by simp
  next
    case (Writing c')
    obtain st' nxt where we: "write_effect c' st = (st', nxt)"
      by fastforce
    let ?t = "s\<lparr>prefs_cell := Ready st', lock := Unlocked, threads := (threads s)[j := nxt]\<rparr>"
    have "conc_step ncpus res s ?t"
      using j Writing Suc.prems(5) we by (rule conc_step.release_write)
    moreover have "readers ?t + writers ?t = m"
      using Suc.prems(2) j Writing write_effect_next [OF we] writers_pos [OF j Writing]
      by (simp add: readers_def writers_def length_filter_list_update del: length_greater_0_conv)
    ultimately show ?thesis
      using that j write_effect_accessors [OF we] by simp
  qed (use hold in auto)
  have "sys_inv t"
    using conc_step_sys_inv [OF step Suc.prems(1)] .
  moreover have "i < length (threads t)" and "threads t ! i = Waiting c"
    using Suc.prems(3,4) ji tj by (metis length_list_update, metis nth_list_update_neq)
  moreover have "needs_lock st' c"
    using needs_lock_accessors [OF acc] Suc.prems(6) by simp
  ultimately obtain u where "(conc_step ncpus res)\<^sup>*\<^sup>* t u"
    and "threads u ! i = Reading c \<or> threads u ! i = Writing c"
    using Suc.IH [OF _ cnt _ _ ready] by blast
  then show ?case
    using step by (blast intro: converse_rtranclp_into_rtranclp)
qed

lemma reach_poisoned:
  "reach ncpus res n s \<Longrightarrow> prefs_cell s = Poisoned \<Longrightarrow> load_defaults ncpus res = None"
proof (induction rule: reach.induct)
  case start
  then show ?case by (simp add: sys_init_def)
next
  case (step s t)
  from step.hyps(2) step.IH step.prems show ?case
    by cases auto
qed

subsection \<open>Lemmas: progress, runs of one call\<close>

lemma progress_by:
  assumes "conc_step ncpus res s t" and "j < length (threads s)"
    and "threads t = (threads s)[j := x]" and "call_measure x < call_measure (threads s ! j)"
  shows "\<exists>t. conc_step ncpus res s t \<and> work_left t < work_left s"
  using assms sum_list_map_update_less [OF assms(2,4)] by (auto simp: work_left_def)

lemma lock_free:
  assumes "lock_inv s" and "\<not> (\<exists>j < length (threads s). is_reading (threads s ! j) \<or> is_writing (threads s ! j))"
  shows "lock s = Unlocked"
proof -
  have "readers s = 0" and "writers s = 0"
    using assms(2) length_filter_pos_index [of is_reading "threads s"]
      length_filter_pos_index [of is_writing "threads s"]
    by (auto simp: readers_def writers_def)
  then show ?thesis
    using assms(1) by (auto simp: lock_inv_def split: rwlock.splits)
qed

lemma progress:
  assumes "sys_inv s" and "\<not> list_all finished (threads s)"
  shows "\<exists>t. conc_step ncpus res s t \<and> work_left t < work_left s"
proof (cases "\<exists>j < length (threads s). is_reading (threads s ! j) \<or> is_writing (threads s ! j)")
  case True
  then obtain j where j: "j < length (threads s)"
    and hold: "is_reading (threads s ! j) \<or> is_writing (threads s ! j)"
    by blast
  show ?thesis
  proof (cases "threads s ! j")
    case (Reading c)
    show ?thesis
      by (rule progress_by [OF conc_step.release_read [OF j Reading] j]) (simp add: Reading)+
  next
    case (Writing c)
    obtain st where st: "prefs_cell s = Ready st"
      using cell_inv_past_deref [of s j] assms(1) j Writing
      by (cases "prefs_cell s") (auto simp: sys_inv_def)
    obtain st' nxt where we: "write_effect c st = (st', nxt)"
      by fastforce
    show ?thesis
      by (rule progress_by [OF conc_step.release_write [OF j Writing st we] j])
         (simp add: Writing write_effect_measure [OF we])+
  qed (use hold in auto)
next
  case False
  have l: "lock s = Unlocked"
    using lock_free [OF _ False] assms(1) by (simp add: sys_inv_def)
  obtain j where j: "j < length (threads s)" and nf: "\<not> finished (threads s ! j)"
    using assms(2) by (auto simp: list_all_length)
  show ?thesis
  proof (cases "threads s ! j")
    case (Deref c)
    show ?thesis
    proof (cases "prefs_cell s")
      case Uninit
      show ?thesis
      proof (cases "load_defaults ncpus res")
        case None
        show ?thesis
          by (rule progress_by [OF conc_step.init_fail [OF j Deref Uninit None] j]) (simp add: Deref)+
      next
        case (Some st)
        show ?thesis
          by (rule progress_by [OF conc_step.init_ok [OF j Deref Uninit Some] j]) (simp add: Deref)+
      qed
    next
      case (Ready st)
      show ?thesis
        by (rule progress_by [OF conc_step.deref [OF j Deref Ready] j]) (simp add: Deref)+
    next
      case Poisoned
      show ?thesis
        by (rule progress_by [OF conc_step.deref_poisoned [OF j Deref Poisoned] j]) (simp add: Deref)+
    qed
  next
    case (Waiting c)
    obtain st where st: "prefs_cell s = Ready st"
      using cell_inv_past_deref [of s j] assms(1) j Waiting
      by (cases "prefs_cell s") (auto simp: sys_inv_def)
    consider (skip) "\<not> needs_lock st c" | (rd) "needs_lock st c" "is_read_call c"
      | (wr) "needs_lock st c" "\<not> is_read_call c"
      by blast
    then show ?thesis
    proof cases
      case skip
      show ?thesis
        by (rule progress_by [OF conc_step.skip [OF j Waiting st skip] j]) (simp add: Waiting)+
    next
      case rd
      show ?thesis
        by (rule progress_by [OF conc_step.acquire_read [OF j Waiting st rd] j]) (simp add: Waiting l)+
    next
      case wr
      show ?thesis
        by (rule progress_by [OF conc_step.acquire_write [OF j Waiting st wr l] j]) (simp add: Waiting)+
    qed
  qed (use nf False j in auto)
qed

lemma quiescence_reachable:
  "sys_inv s \<Longrightarrow> \<exists>u. (conc_step ncpus res)\<^sup>*\<^sup>* s u \<and> list_all finished (threads u)"
proof (induction "work_left s" arbitrary: s rule: less_induct)
  case less
  show ?case
  proof (cases "list_all finished (threads s)")
    case False
    then obtain t where step: "conc_step ncpus res s t" and lt: "work_left t < work_left s"
      using progress [OF less.prems] by blast
    obtain u where "(conc_step ncpus res)\<^sup>*\<^sup>* t u" and "list_all finished (threads u)"
      using less.hyps [OF lt conc_step_sys_inv [OF step less.prems]] by blast
    then show ?thesis
      using step by (blast intro: converse_rtranclp_into_rtranclp)
  qed blast
qed

lemma add_user_prefs_run:
  assumes "i < length (threads s)" and "threads s ! i = Waiting (AddUserPrefs kvs)"
    and "prefs_cell s = Ready st" and "lock s = Unlocked"
  shows "\<exists>t. (conc_step ncpus res)\<^sup>*\<^sup>* s t \<and> prefs_cell t = Ready (fst (prefs_set_all st kvs)) \<and>
           lock t = Unlocked \<and>
           threads t = (threads s)[i := if isl (snd (prefs_set_all st kvs)) then Panicked else Idle]"
  using assms
proof (induction kvs arbitrary: s st)
  case Nil
  let ?t = "s\<lparr>threads := (threads s)[i := skip_next (AddUserPrefs [])]\<rparr>"
  have "conc_step ncpus res s ?t"
    by (rule conc_step.skip [OF Nil.prems(1,2,3)]) simp
  then show ?case
    using Nil.prems(3,4) by (intro exI [where x = ?t]) auto
next
  case (Cons kv rest)
  obtain k v where kv: "kv = (k, v)"
    by fastforce
  show ?case
  proof (cases "accessors st k")
    case None
    let ?t = "s\<lparr>threads := (threads s)[i := skip_next (AddUserPrefs ((k, v) # rest))]\<rparr>"
    have "conc_step ncpus res s ?t"
      by (rule conc_step.skip [OF Cons.prems(1) Cons.prems(2)[unfolded kv] Cons.prems(3)]) (simp add: None)
    then show ?thesis
      using Cons.prems(3,4) None kv by (intro exI [where x = ?t]) (auto simp: result_simps)
  next
    case (Some a)
    let ?s1 = "s\<lparr>lock := WriteLocked, threads := (threads s)[i := Writing (AddUserPrefs ((k, v) # rest))]\<rparr>"
    have s1: "conc_step ncpus res s ?s1"
      by (rule conc_step.acquire_write [OF Cons.prems(1) Cons.prems(2)[unfolded kv] Cons.prems(3) _ _ Cons.prems(4)])
         (simp_all add: Some)
    obtain st' r where set: "prefs_set st k v = (st', r)"
      by fastforce
    define nxt where "nxt = (case r of Inl _ \<Rightarrow> Panicked | Inr _ \<Rightarrow> if rest = [] then Idle else Waiting (AddUserPrefs rest))"
    have we: "write_effect (AddUserPrefs ((k, v) # rest)) st = (st', nxt)"
      using set by (simp add: nxt_def split: sum.splits)
    let ?s2 = "?s1\<lparr>prefs_cell := Ready st', lock := Unlocked, threads := (threads ?s1)[i := nxt]\<rparr>"
    have s2: "conc_step ncpus res ?s1 ?s2"
      by (rule conc_step.release_write [OF _ _ _ we]) (use Cons.prems(1,3) in simp_all)
    show ?thesis
    proof (cases "isl r \<or> rest = []")
      case True
      then show ?thesis
        using s1 s2 set kv
        by (intro exI [where x = ?s2]) (auto split: sum.splits simp: nxt_def prefs_set_Inl_state)
    next
      case False
      then have nw: "nxt = Waiting (AddUserPrefs rest)"
        by (auto simp: nxt_def split: sum.splits)
      obtain u where "(conc_step ncpus res)\<^sup>*\<^sup>* ?s2 u" and
        "prefs_cell u = Ready (fst (prefs_set_all st' rest))" and "lock u = Unlocked" and
        "threads u = (threads ?s2)[i := if isl (snd (prefs_set_all st' rest)) then Panicked else Idle]"
        using Cons.IH [of ?s2 st'] Cons.prems(1) nw by simp blast
      moreover have "prefs_set_all st (kv # rest) = prefs_set_all st' rest"
        using False set kv by (auto split: sum.splits)
      ultimately show ?thesis
        using s1 s2 by (intro exI [where x = u]) auto
    qed
  qed
qed

lemma servo_svg_leaf: "(''dom.svg.enabled'', [''dom'', ''svg'', ''enabled''], TyBool) \<in> set (root_leaves servo_schema)"
  by code_simp

lemma default_store_svg: "prefs_get default_store ''dom.svg.enabled'' = Inr (Bool False)"
  by code_simp

lemma default_store_inv: "prefs_inv (prefs_conform servo_schema) default_store \<and> accessors default_store = servo_accessors"
  using load_defaults_inv [OF load_defaults_dump_default] .

subsection \<open>Properties of the concurrent store\<close>

text \<open>
  C1: the \<open>RwLock\<close> excludes: in every reachable state, a thread holding the write guard
  is the only thread in a critical section, reading or writing.
\<close>

theorem rwlock_mutual_exclusion:
  assumes "reach ncpus res n s" and "i < length (threads s)" and "j < length (threads s)"
    and "is_writing (threads s ! i)" and "is_reading (threads s ! j) \<or> is_writing (threads s ! j)"
  shows "i = j"
  using lock_inv_exclusive [OF _ assms(2-5)] reach_sys_inv [OF assms(1)] by (simp add: sys_inv_def)

theorem rwlock_mutual_exclusion_witness:
  "reach 8 (Some default_resource) 1 \<lparr>prefs_cell = Ready default_store, lock = WriteLocked, threads = [Writing (Set ''layout.threads'' (IntV 4))]\<rparr> \<and> 0 < length (threads \<lparr>prefs_cell = Ready default_store, lock = WriteLocked, threads = [Writing (Set ''layout.threads'' (IntV 4))]\<rparr>) \<and>
   is_writing (threads \<lparr>prefs_cell = Ready default_store, lock = WriteLocked, threads = [Writing (Set ''layout.threads'' (IntV 4))]\<rparr> ! 0) \<and> (is_reading (threads \<lparr>prefs_cell = Ready default_store, lock = WriteLocked, threads = [Writing (Set ''layout.threads'' (IntV 4))]\<rparr> ! 0) \<or> is_writing (threads \<lparr>prefs_cell = Ready default_store, lock = WriteLocked, threads = [Writing (Set ''layout.threads'' (IntV 4))]\<rparr> ! 0)) \<and> (0::nat) = 0"
  using rwlock_mutual_exclusion [OF reach_writing [of 8 "IntV 4"], of 0 0] reach_writing [of 8 "IntV 4"] by simp

text \<open>
  C11: a reader's snapshot is consistent: while a thread holds the read guard, no step of
  any thread changes the store (no writer runs, and the cell is not re-initialised).
\<close>

theorem reader_sees_stable_store:
  assumes "reach ncpus res n s" and "conc_step ncpus res s t"
    and "i < length (threads s)" and "is_reading (threads s ! i)"
  shows "prefs_cell t = prefs_cell s"
proof -
  have inv: "sys_inv s"
    using assms(1) by (rule reach_sys_inv)
  have ready: "is_ready (prefs_cell s)"
    using cell_inv_past_deref [of s i] inv assms(3,4)
    by (cases "threads s ! i") (auto simp: sys_inv_def)
  from assms(2) show ?thesis
  proof cases
    case (init_ok j c st)
    then show ?thesis
      using ready by simp
  next
    case (release_write j c st st' nxt)
    have "j = i"
      using lock_inv_exclusive [of s j i] inv release_write(2,3) assms(3,4) by (simp add: sys_inv_def)
    then show ?thesis
      using release_write(3) assms(4) by simp
  qed (use ready in auto)
qed

theorem reader_sees_stable_store_witness:
  "reach 8 (Some default_resource) 1 \<lparr>prefs_cell = Ready default_store, lock = ReadLocked 1, threads = [Reading (Get ''layout.threads'')]\<rparr> \<and>
   conc_step 8 (Some default_resource) \<lparr>prefs_cell = Ready default_store, lock = ReadLocked 1, threads = [Reading (Get ''layout.threads'')]\<rparr>
     (\<lparr>prefs_cell = Ready default_store, lock = ReadLocked 1, threads = [Reading (Get ''layout.threads'')]\<rparr>\<lparr>lock := rw_remove_reader (lock \<lparr>prefs_cell = Ready default_store, lock = ReadLocked 1, threads = [Reading (Get ''layout.threads'')]\<rparr>), threads := (threads \<lparr>prefs_cell = Ready default_store, lock = ReadLocked 1, threads = [Reading (Get ''layout.threads'')]\<rparr>)[0 := Idle]\<rparr>) \<and>
   0 < length (threads \<lparr>prefs_cell = Ready default_store, lock = ReadLocked 1, threads = [Reading (Get ''layout.threads'')]\<rparr>) \<and> is_reading (threads \<lparr>prefs_cell = Ready default_store, lock = ReadLocked 1, threads = [Reading (Get ''layout.threads'')]\<rparr> ! 0) \<and>
   prefs_cell (\<lparr>prefs_cell = Ready default_store, lock = ReadLocked 1, threads = [Reading (Get ''layout.threads'')]\<rparr>\<lparr>lock := rw_remove_reader (lock \<lparr>prefs_cell = Ready default_store, lock = ReadLocked 1, threads = [Reading (Get ''layout.threads'')]\<rparr>), threads := (threads \<lparr>prefs_cell = Ready default_store, lock = ReadLocked 1, threads = [Reading (Get ''layout.threads'')]\<rparr>)[0 := Idle]\<rparr>) =
   prefs_cell \<lparr>prefs_cell = Ready default_store, lock = ReadLocked 1, threads = [Reading (Get ''layout.threads'')]\<rparr>"
proof -
  have r: "reach 8 (Some default_resource) 1 \<lparr>prefs_cell = Ready default_store, lock = ReadLocked 1, threads = [Reading (Get ''layout.threads'')]\<rparr>"
    by (rule reach_reading)
  have st: "conc_step 8 (Some default_resource) \<lparr>prefs_cell = Ready default_store, lock = ReadLocked 1, threads = [Reading (Get ''layout.threads'')]\<rparr>
              (\<lparr>prefs_cell = Ready default_store, lock = ReadLocked 1, threads = [Reading (Get ''layout.threads'')]\<rparr>\<lparr>lock := rw_remove_reader (lock \<lparr>prefs_cell = Ready default_store, lock = ReadLocked 1, threads = [Reading (Get ''layout.threads'')]\<rparr>), threads := (threads \<lparr>prefs_cell = Ready default_store, lock = ReadLocked 1, threads = [Reading (Get ''layout.threads'')]\<rparr>)[0 := Idle]\<rparr>)"
    by (rule conc_step.release_read [where c = "Get ''layout.threads''"]) simp_all
  show ?thesis
    using reader_sees_stable_store [OF r st, of 0] r st by simp
qed

text \<open>
  C2: in every reachable state, the store in \<open>PREFS\<close> meets the store's invariant: its
  value conforms to the schema, whatever calls the threads have made, and its table is
  the generated accessor table.
\<close>

theorem store_inv_reachable:
  assumes "reach ncpus res n s" and "prefs_cell s = Ready st"
  shows "prefs_inv (prefs_conform servo_schema) st \<and> accessors st = servo_accessors"
  using reach_sys_inv [OF assms(1)] assms(2) by (simp add: sys_inv_def store_inv_def)

theorem store_inv_reachable_witness:
  "reach 8 (Some default_resource) 1 \<lparr>prefs_cell = Ready default_store, lock = WriteLocked, threads = [Writing (Set ''layout.threads'' (IntV 4))]\<rparr> \<and> prefs_cell \<lparr>prefs_cell = Ready default_store, lock = WriteLocked, threads = [Writing (Set ''layout.threads'' (IntV 4))]\<rparr> = Ready default_store \<and>
   prefs_inv (prefs_conform servo_schema) default_store \<and> accessors default_store = servo_accessors"
  using store_inv_reachable [OF reach_writing [of 8 "IntV 4"]] reach_writing [of 8 "IntV 4"] by simp

text \<open>
  C13: \<open>PREFS\<close> is initialised at most once: no thread gets past its dereference of
  \<open>PREFS\<close> while the cell is still uninitialised (the first dereference runs the
  initialiser, and a failed one poisons the cell instead of leaving it for a later
  dereference to retry); no step makes an initialised cell uninitialised again; a poisoned
  cell stays poisoned; and a cell holding a store keeps a store over the same accessor
  table.
\<close>

theorem prefs_initialised_once:
  assumes "conc_step ncpus res s t"
  shows "(\<forall>i < length (threads s). (\<exists>c. threads s ! i = Deref c) \<and> threads t ! i \<noteq> threads s ! i \<longrightarrow>
            prefs_cell t \<noteq> Uninit) \<and>
         (prefs_cell s \<noteq> Uninit \<longrightarrow> prefs_cell t \<noteq> Uninit) \<and>
         (prefs_cell s = Poisoned \<longrightarrow> prefs_cell t = Poisoned) \<and>
         (\<forall>st. prefs_cell s = Ready st \<longrightarrow> (\<exists>st'. prefs_cell t = Ready st' \<and> accessors st' = accessors st))"
  using assms
  by (cases rule: conc_step.cases) (auto dest: write_effect_accessors simp: nth_list_update split: if_splits)

theorem prefs_initialised_once_witness:
  "conc_step 8 (Some default_resource) \<lparr>prefs_cell = Uninit, lock = Unlocked, threads = [Deref (Get ''layout.threads'')]\<rparr>
     \<lparr>prefs_cell = Ready default_store, lock = Unlocked, threads = [Waiting (Get ''layout.threads'')]\<rparr> \<and>
   (\<exists>c. [Deref (Get ''layout.threads'')] ! 0 = Deref c) \<and>
   [Waiting (Get ''layout.threads'')] ! 0 \<noteq> [Deref (Get ''layout.threads'')] ! 0 \<and>
   prefs_cell \<lparr>prefs_cell = Ready default_store, lock = Unlocked, threads = [Waiting (Get ''layout.threads'')]\<rparr> \<noteq> Uninit"
proof -
  have st: "conc_step 8 (Some default_resource) \<lparr>prefs_cell = Uninit, lock = Unlocked, threads = [Deref (Get ''layout.threads'')]\<rparr>
     \<lparr>prefs_cell = Ready default_store, lock = Unlocked, threads = [Waiting (Get ''layout.threads'')]\<rparr>"
    using conc_step.init_ok [where i = 0 and c = "Get ''layout.threads''" and st = default_store and ncpus = 8
        and res = "Some default_resource" and s = "\<lparr>prefs_cell = Uninit, lock = Unlocked, threads = [Deref (Get ''layout.threads'')]\<rparr>"]
      load_defaults_dump_default
    by simp
  show ?thesis
    using prefs_initialised_once [OF st] st by simp
qed

text \<open>
  C12: no thread waits for a guard for ever: a thread that has looked its key up and waits
  for the read or write guard can obtain it, by the steps in which the threads in their
  critical sections drop their guards; no step acquires a guard twice or holds one across
  another blocking call.
\<close>

theorem waiting_thread_acquires:
  assumes "reach ncpus res n s" and "i < length (threads s)" and "threads s ! i = Waiting c"
    and "prefs_cell s = Ready st" and "needs_lock st c"
  shows "\<exists>t. (conc_step ncpus res)\<^sup>*\<^sup>* s t \<and> (threads t ! i = Reading c \<or> threads t ! i = Writing c)"
  using acquire_possible [OF reach_sys_inv [OF assms(1)] refl assms(2-5)] .

theorem waiting_thread_acquires_witness:
  "reach 8 (Some default_resource) 1 \<lparr>prefs_cell = Ready default_store, lock = Unlocked, threads = [Waiting (Set ''layout.threads'' (IntV 4))]\<rparr> \<and> 0 < length (threads \<lparr>prefs_cell = Ready default_store, lock = Unlocked, threads = [Waiting (Set ''layout.threads'' (IntV 4))]\<rparr>) \<and>
   threads \<lparr>prefs_cell = Ready default_store, lock = Unlocked, threads = [Waiting (Set ''layout.threads'' (IntV 4))]\<rparr> ! 0 = Waiting (Set ''layout.threads'' (IntV 4)) \<and> prefs_cell \<lparr>prefs_cell = Ready default_store, lock = Unlocked, threads = [Waiting (Set ''layout.threads'' (IntV 4))]\<rparr> = Ready default_store \<and>
   needs_lock default_store (Set ''layout.threads'' (IntV 4)) \<and>
   (\<exists>t. (conc_step 8 (Some default_resource))\<^sup>*\<^sup>* \<lparr>prefs_cell = Ready default_store, lock = Unlocked, threads = [Waiting (Set ''layout.threads'' (IntV 4))]\<rparr> t \<and>
      (threads t ! 0 = Reading (Set ''layout.threads'' (IntV 4)) \<or>
       threads t ! 0 = Writing (Set ''layout.threads'' (IntV 4))))"
proof -
  have r: "reach 8 (Some default_resource) 1 \<lparr>prefs_cell = Ready default_store, lock = Unlocked, threads = [Waiting (Set ''layout.threads'' (IntV 4))]\<rparr>"
    by (rule reach_waiting) simp
  have nl: "needs_lock default_store (Set ''layout.threads'' (IntV 4))"
    using default_store_threads by simp
  show ?thesis
    using waiting_thread_acquires [OF r _ _ _ nl, of 0] r nl by simp
qed

text \<open>
  C14: a poisoned \<open>PREFS\<close> is never accessed: the cell is poisoned only when the resource
  does not load, and then no thread gets past the dereference; every call panics there.
\<close>

theorem poisoned_prefs_never_accessed:
  assumes "reach ncpus res n s" and "prefs_cell s = Poisoned" and "i < length (threads s)"
  shows "load_defaults ncpus res = None \<and> \<not> past_deref (threads s ! i)"
  using reach_poisoned [OF assms(1,2)] cell_inv_past_deref [of s i] reach_sys_inv [OF assms(1)] assms(2,3)
  by (auto simp: sys_inv_def)

theorem poisoned_prefs_never_accessed_witness:
  "reach 8 None 1 \<lparr>prefs_cell = Poisoned, lock = Unlocked, threads = [Panicked]\<rparr> \<and> prefs_cell \<lparr>prefs_cell = Poisoned, lock = Unlocked, threads = [Panicked]\<rparr> = Poisoned \<and> 0 < length (threads \<lparr>prefs_cell = Poisoned, lock = Unlocked, threads = [Panicked]\<rparr>) \<and>
   load_defaults 8 None = None \<and> \<not> past_deref (threads \<lparr>prefs_cell = Poisoned, lock = Unlocked, threads = [Panicked]\<rparr> ! 0)"
proof -
  have d: "reach 8 None 1 \<lparr>prefs_cell = Uninit, lock = Unlocked, threads = [Deref (Get ''layout.threads'')]\<rparr>"
    using reach.step [OF reach.start conc_step.call [where i = 0 and s = "sys_init 1" and c = "Get ''layout.threads''"]]
    by (simp add: sys_init_def)
  have r: "reach 8 None 1 \<lparr>prefs_cell = Poisoned, lock = Unlocked, threads = [Panicked]\<rparr>"
    using reach.step [OF d conc_step.init_fail [where i = 0 and c = "Get ''layout.threads''"]]
    by (simp add: load_defaults_def)
  show ?thesis
    using poisoned_prefs_never_accessed [OF r, of 0] r by simp
qed

text \<open>
  C15: every call finishes after finitely many steps of its own thread: each step of a
  thread inside a call (every step but the start of a new call) decreases the steps it
  still has to take, so \<open>pref!\<close>, \<open>set_pref!\<close>, \<open>get\<close> and \<open>set\<close> take at most six
  steps and \<open>add_user_prefs\<close> of \<open>n\<close> entries at most \<open>3 n + 3\<close>.
\<close>

theorem call_steps_decrease:
  assumes "conc_step ncpus res s t" and "i < length (threads s)"
    and "threads t ! i \<noteq> threads s ! i" and "threads s ! i \<noteq> Idle"
  shows "call_measure (threads t ! i) < call_measure (threads s ! i)"
  using assms
proof (cases rule: conc_step.cases)
  case (skip j c st)
  then show ?thesis
    using assms(2,3) by (cases "i = j") auto
next
  case (release_write j c st st' nxt)
  then show ?thesis
    using assms(2,3)
    by (cases "i = j") (auto elim!: write_effect.elims split: prod.splits sum.splits if_splits)
qed (use assms(2-4) in \<open>auto simp: nth_list_update split: if_splits\<close>)

theorem call_steps_decrease_witness:
  "conc_step 8 (Some default_resource) \<lparr>prefs_cell = Ready default_store, lock = Unlocked, threads = [Waiting (Set ''layout.threads'' (IntV 4))]\<rparr>
     (\<lparr>prefs_cell = Ready default_store, lock = Unlocked, threads = [Waiting (Set ''layout.threads'' (IntV 4))]\<rparr>\<lparr>lock := WriteLocked, threads := (threads \<lparr>prefs_cell = Ready default_store, lock = Unlocked, threads = [Waiting (Set ''layout.threads'' (IntV 4))]\<rparr>)[0 := Writing (Set ''layout.threads'' (IntV 4))]\<rparr>) \<and>
   0 < length (threads \<lparr>prefs_cell = Ready default_store, lock = Unlocked, threads = [Waiting (Set ''layout.threads'' (IntV 4))]\<rparr>) \<and>
   threads (\<lparr>prefs_cell = Ready default_store, lock = Unlocked, threads = [Waiting (Set ''layout.threads'' (IntV 4))]\<rparr>\<lparr>lock := WriteLocked, threads := (threads \<lparr>prefs_cell = Ready default_store, lock = Unlocked, threads = [Waiting (Set ''layout.threads'' (IntV 4))]\<rparr>)[0 := Writing (Set ''layout.threads'' (IntV 4))]\<rparr>) ! 0 \<noteq>
     threads \<lparr>prefs_cell = Ready default_store, lock = Unlocked, threads = [Waiting (Set ''layout.threads'' (IntV 4))]\<rparr> ! 0 \<and>
   threads \<lparr>prefs_cell = Ready default_store, lock = Unlocked, threads = [Waiting (Set ''layout.threads'' (IntV 4))]\<rparr> ! 0 \<noteq> Idle \<and>
   call_measure (threads (\<lparr>prefs_cell = Ready default_store, lock = Unlocked, threads = [Waiting (Set ''layout.threads'' (IntV 4))]\<rparr>\<lparr>lock := WriteLocked,
     threads := (threads \<lparr>prefs_cell = Ready default_store, lock = Unlocked, threads = [Waiting (Set ''layout.threads'' (IntV 4))]\<rparr>)[0 := Writing (Set ''layout.threads'' (IntV 4))]\<rparr>) ! 0) <
   call_measure (threads \<lparr>prefs_cell = Ready default_store, lock = Unlocked, threads = [Waiting (Set ''layout.threads'' (IntV 4))]\<rparr> ! 0)"
proof -
  have st: "conc_step 8 (Some default_resource) \<lparr>prefs_cell = Ready default_store, lock = Unlocked, threads = [Waiting (Set ''layout.threads'' (IntV 4))]\<rparr>
     (\<lparr>prefs_cell = Ready default_store, lock = Unlocked, threads = [Waiting (Set ''layout.threads'' (IntV 4))]\<rparr>\<lparr>lock := WriteLocked, threads := (threads \<lparr>prefs_cell = Ready default_store, lock = Unlocked, threads = [Waiting (Set ''layout.threads'' (IntV 4))]\<rparr>)[0 := Writing (Set ''layout.threads'' (IntV 4))]\<rparr>)"
    by (rule conc_step.acquire_write [where st = default_store]) (use default_store_threads in auto)
  show ?thesis
    using call_steps_decrease [OF st, of 0] st by simp
qed

text \<open>
  C16: every call that has started completes: from every reachable state there is a run
  in which every thread finishes its current call, idle again or stopped by a panic. No
  reachable state is a deadlock: a thread in a critical section can always leave it, and
  when none is, the lock is free for the others.
\<close>

theorem every_call_completes:
  assumes "reach ncpus res n s"
  shows "\<exists>u. (conc_step ncpus res)\<^sup>*\<^sup>* s u \<and> list_all finished (threads u)"
  using quiescence_reachable [OF reach_sys_inv [OF assms]] .

theorem every_call_completes_witness:
  "reach 8 (Some default_resource) 1 \<lparr>prefs_cell = Ready default_store, lock = WriteLocked, threads = [Writing (Set ''layout.threads'' (IntV 4))]\<rparr> \<and>
   (\<exists>u. (conc_step 8 (Some default_resource))\<^sup>*\<^sup>* \<lparr>prefs_cell = Ready default_store, lock = WriteLocked, threads = [Writing (Set ''layout.threads'' (IntV 4))]\<rparr> u \<and>
      list_all finished (threads u))"
  using every_call_completes [OF reach_writing [of 8 "IntV 4"]] reach_writing [of 8 "IntV 4"] by simp

text \<open>
  C17: \<open>add_user_prefs\<close> run by one thread while the lock is free, the other threads
  not moving, computes the sequential \<open>set_all\<close>: PREFS then holds the store
  \<open>set_all\<close> leaves, partial on an error, and the thread has returned exactly when the
  sequential \<open>add_user_prefs\<close> returns, and panicked otherwise.
\<close>

theorem add_user_prefs_alone_refines_set_all:
  assumes "i < length (threads s)" and "threads s ! i = Waiting (AddUserPrefs kvs)"
    and "prefs_cell s = Ready st" and "lock s = Unlocked"
  shows "\<exists>t. (conc_step ncpus res)\<^sup>*\<^sup>* s t \<and> prefs_cell t = Ready (fst (prefs_set_all st kvs)) \<and>
           threads t = (threads s)[i := (case add_user_prefs st kvs of None \<Rightarrow> Panicked | Some _ \<Rightarrow> Idle)]"
proof -
  obtain t where "(conc_step ncpus res)\<^sup>*\<^sup>* s t" and "prefs_cell t = Ready (fst (prefs_set_all st kvs))"
    and "threads t = (threads s)[i := if isl (snd (prefs_set_all st kvs)) then Panicked else Idle]"
    using add_user_prefs_run [OF assms, where ncpus = ncpus and res = res] by blast
  then show ?thesis
    by (intro exI [where x = t]) (auto simp: add_user_prefs_def split: prod.splits sum.splits)
qed

theorem add_user_prefs_alone_refines_set_all_witness:
  "0 < length (threads \<lparr>prefs_cell = Ready default_store, lock = Unlocked, threads = [Waiting (AddUserPrefs [(''layout.threads'', IntV 4)])]\<rparr>) \<and>
   threads \<lparr>prefs_cell = Ready default_store, lock = Unlocked, threads = [Waiting (AddUserPrefs [(''layout.threads'', IntV 4)])]\<rparr> ! 0 = Waiting (AddUserPrefs [(''layout.threads'', IntV 4)]) \<and>
   prefs_cell \<lparr>prefs_cell = Ready default_store, lock = Unlocked, threads = [Waiting (AddUserPrefs [(''layout.threads'', IntV 4)])]\<rparr> = Ready default_store \<and>
   lock \<lparr>prefs_cell = Ready default_store, lock = Unlocked, threads = [Waiting (AddUserPrefs [(''layout.threads'', IntV 4)])]\<rparr> = Unlocked \<and>
   (\<exists>t. (conc_step 8 (Some default_resource))\<^sup>*\<^sup>* \<lparr>prefs_cell = Ready default_store, lock = Unlocked, threads = [Waiting (AddUserPrefs [(''layout.threads'', IntV 4)])]\<rparr> t \<and>
      prefs_cell t = Ready (fst (prefs_set_all default_store [(''layout.threads'', IntV 4)])) \<and>
      threads t = [Waiting (AddUserPrefs [(''layout.threads'', IntV 4)])][0 := (case add_user_prefs default_store [(''layout.threads'', IntV 4)] of None \<Rightarrow> Panicked | Some _ \<Rightarrow> Idle)])"
  using add_user_prefs_alone_refines_set_all [where ncpus = 8 and res = "Some default_resource" and i = 0
      and kvs = "[(''layout.threads'', IntV 4)]" and st = default_store
      and s = "\<lparr>prefs_cell = Ready default_store, lock = Unlocked, threads = [Waiting (AddUserPrefs [(''layout.threads'', IntV 4)])]\<rparr>"]
  by simp

text \<open>
  \<open>add_user_prefs\<close> is not atomic for concurrent readers: a run of two threads reaches a
  state in which a reader holds the read guard while an override of two entries has
  applied its first entry and not its second (the finding on \<open>prefs.rs\<close> line 59).
\<close>

lemma add_user_prefs_observed_half_applied:
  "\<exists>s st. reach 8 (Some default_resource) 2 s \<and> prefs_cell s = Ready st \<and>
     threads s ! 0 = Waiting (AddUserPrefs [(''dom.svg.enabled'', Bool True)]) \<and>
     threads s ! 1 = Reading (Get ''dom.svg.enabled'') \<and>
     prefs_get st ''layout.threads'' = Inr (IntV 4) \<and> prefs_get st ''dom.svg.enabled'' \<noteq> Inr (Bool True)"
proof -
  let ?A = "AddUserPrefs [(''layout.threads'', IntV 4), (''dom.svg.enabled'', Bool True)]"
  let ?A' = "AddUserPrefs [(''dom.svg.enabled'', Bool True)]"
  let ?G = "Get ''dom.svg.enabled''"
  have inv: "prefs_inv (prefs_conform servo_schema) default_store" and acc: "accessors default_store = servo_accessors"
    using default_store_inv by simp_all
  obtain st1 where set1: "prefs_set default_store ''layout.threads'' (IntV 4) = (st1, Inr ())"
    using schema_store_set [OF servo_schema_wf _ servo_threads_leaf, of default_store "IntV 4"] acc
    by (simp add: servo_accessors_def)
  have acc1: "accessors st1 = servo_accessors"
    using arg_cong [OF set1, of "accessors \<circ> fst"] acc by (simp del: default_node.simps)
  have svg: "accessors st1 ''dom.svg.enabled'' \<noteq> None"
    using servo_accessors_leaf [OF servo_svg_leaf] acc1 by simp
  have r1: "reach 8 (Some default_resource) 2 \<lparr>prefs_cell = Uninit, lock = Unlocked, threads = [Deref ?A, Idle]\<rparr>"
    using reach.step [OF reach.start conc_step.call [where i = 0 and s = "sys_init 2" and c = ?A]]
    by (simp add: sys_init_def numeral_2_eq_2)
  have r2: "reach 8 (Some default_resource) 2 \<lparr>prefs_cell = Ready default_store, lock = Unlocked, threads = [Waiting ?A, Idle]\<rparr>"
    using reach.step [OF r1 conc_step.init_ok [where i = 0 and c = ?A and st = default_store]] load_defaults_dump_default
    by simp
  have r3: "reach 8 (Some default_resource) 2 \<lparr>prefs_cell = Ready default_store, lock = WriteLocked, threads = [Writing ?A, Idle]\<rparr>"
    using reach.step [OF r2 conc_step.acquire_write [where i = 0 and c = ?A and st = default_store]] default_store_threads
    by simp
  have r4: "reach 8 (Some default_resource) 2 \<lparr>prefs_cell = Ready st1, lock = Unlocked, threads = [Waiting ?A', Idle]\<rparr>"
    using reach.step [OF r3 conc_step.release_write [where i = 0 and c = ?A and st = default_store and st' = st1 and nxt = "Waiting ?A'"]] set1
    by simp
  have r5: "reach 8 (Some default_resource) 2 \<lparr>prefs_cell = Ready st1, lock = Unlocked, threads = [Waiting ?A', Deref ?G]\<rparr>"
    using reach.step [OF r4 conc_step.call [where i = 1 and c = ?G]] by simp
  have r6: "reach 8 (Some default_resource) 2 \<lparr>prefs_cell = Ready st1, lock = Unlocked, threads = [Waiting ?A', Waiting ?G]\<rparr>"
    using reach.step [OF r5 conc_step.deref [where i = 1 and c = ?G and st = st1]] by simp
  have r7: "reach 8 (Some default_resource) 2 \<lparr>prefs_cell = Ready st1, lock = ReadLocked 1, threads = [Waiting ?A', Reading ?G]\<rparr>"
    using reach.step [OF r6 conc_step.acquire_read [where i = 1 and c = ?G and st = st1]] svg
    by simp
  have "prefs_get st1 ''layout.threads'' = Inr (IntV 4)"
    using prefs_set_get_gen [OF inv set1] .
  moreover have "prefs_get st1 ''dom.svg.enabled'' = Inr (Bool False)"
    using prefs_set_other_gen [OF inv set1, of "''dom.svg.enabled''"] default_store_svg by simp
  ultimately show ?thesis
    using r7 by (intro exI [where x = "\<lparr>prefs_cell = Ready st1, lock = ReadLocked 1, threads = [Waiting ?A', Reading ?G]\<rparr>"]) simp
qed

end
