(* ===== verification/ReadableStreamController.thy ===== *)
theory ReadableStreamController
  imports Prefs_Prelude
begin

text \<open>
  \<open>script/dom/readablestreamdefaultcontroller.rs\<close>: the DOM object
  \<open>ReadableStreamDefaultController\<close> (a \<open>#[dom_struct]\<close> holding only its reflector) and
  its WebIDL methods \<open>GetDesiredSize\<close>, \<open>Close\<close>, \<open>Enqueue\<close> and \<open>Error\<close>, each of
  whose bodies is \<open>todo!()\<close>, and the two set-up algorithms of the Streams standard,
  whose bodies are empty. \<open>todo!()\<close> panics with "not yet implemented"; the model
  returns \<open>Inl NotYetImplemented\<close> for it. A JavaScript value is opaque here
  (\<open>js_value\<close>), and so is the reflector.
\<close>

typedecl js_value

typedecl reflector

record rs_default_controller =
  reflector_ :: reflector

datatype panic = NotYetImplemented

text \<open>\<open>Fallible<T>\<close>: a DOM \<open>Error\<close> or a value.\<close>

datatype dom_exception = DomError

type_synonym 'a fallible = "dom_exception + 'a"

definition GetDesiredSize :: "rs_default_controller \<Rightarrow> panic + f64 option" where
  "GetDesiredSize c = Inl NotYetImplemented"

definition Close :: "rs_default_controller \<Rightarrow> panic + unit fallible" where
  "Close c = Inl NotYetImplemented"

definition Enqueue :: "rs_default_controller \<Rightarrow> js_value \<Rightarrow> panic + unit fallible" where
  "Enqueue c chunk = Inl NotYetImplemented"

definition Error :: "rs_default_controller \<Rightarrow> js_value \<Rightarrow> panic + unit fallible" where
  "Error c e = Inl NotYetImplemented"

definition setup_readable_stream_default_controller_from_underlying_source :: "unit \<Rightarrow> unit" where
  "setup_readable_stream_default_controller_from_underlying_source u = ()"

definition SetUpReadableStreamDefaultController :: "unit \<Rightarrow> unit" where
  "SetUpReadableStreamDefaultController u = ()"

text \<open>A call of one of the methods or set-up functions, as a script makes it.\<close>

datatype rs_call =
    CallGetDesiredSize
  | CallClose
  | CallEnqueue js_value
  | CallError js_value
  | CallSetupFromUnderlyingSource
  | CallSetUp

fun rs_call_step :: "rs_default_controller \<Rightarrow> rs_call \<Rightarrow> panic + unit" where
  "rs_call_step c CallGetDesiredSize = map_sum id (\<lambda>_. ()) (GetDesiredSize c)"
| "rs_call_step c CallClose = map_sum id (\<lambda>_. ()) (Close c)"
| "rs_call_step c (CallEnqueue v) = map_sum id (\<lambda>_. ()) (Enqueue c v)"
| "rs_call_step c (CallError v) = map_sum id (\<lambda>_. ()) (Error c v)"
| "rs_call_step c CallSetupFromUnderlyingSource =
     Inr (setup_readable_stream_default_controller_from_underlying_source ())"
| "rs_call_step c CallSetUp = Inr (SetUpReadableStreamDefaultController ())"

fun is_method_call :: "rs_call \<Rightarrow> bool" where
  "is_method_call CallSetupFromUnderlyingSource = False"
| "is_method_call CallSetUp = False"
| "is_method_call _ = True"

subsection \<open>Lemmas\<close>

lemma rs_call_step_panics: "isl (rs_call_step c x) \<longleftrightarrow> is_method_call x"
  by (cases x)
     (simp_all add: GetDesiredSize_def Close_def Enqueue_def Error_def)

end
