(* ===== verification/Spec2Isabelle.thy ===== *)
theory Spec2Isabelle
  imports Concurrency ReadableStreamController
begin

text \<open>
  \<^bold>\<open>The preferences store of servo (\<open>src/components/config/prefs.rs\<close>) and the
  \<open>ReadableStreamDefaultController\<close> stub (\<open>src/components/script/dom/readablestreamdefaultcontroller.rs\<close>).\<close>

  \<^bold>\<open>The program.\<close> \<open>prefs.rs\<close> declares in \<open>mod gen\<close> the schema of the settings:
  nested structs whose leaves are \<open>bool\<close>, \<open>i64\<close>, \<open>f64\<close>, \<open>String\<close> or \<open>[f64; 4]\<close>,
  some with \<open>#[serde(default)]\<close>, \<open>#[serde(default = "f")]\<close> (the suppliers
  \<open>default_layout_threads\<close>, \<open>black\<close>, \<open>white\<close>) or \<open>#[serde(rename = "k")]\<close>. From it
  the macro \<open>build_structs\<close> generates the type \<open>Prefs\<close> and the table
  \<open>PREF_ACCESSORS\<close> from external keys to getter/setter pairs. The process-wide store
  \<open>PREFS\<close> (a \<open>lazy_static\<close> \<open>Preferences\<close> of \<open>pref_util\<close>: the value behind an
  \<open>RwLock\<close>, and the table) is initialised on first use from the bundled resource;
  the macros \<open>pref!\<close>/\<open>set_pref!\<close> read and write a field by its static path under
  the read or write guard; \<open>get\<close>/\<open>set\<close>/\<open>set_all\<close> go through the table;
  \<open>read_prefs_map\<close> turns a user document into a map of \<open>PrefValue\<close>s and
  \<open>add_user_prefs\<close> applies it with \<open>set_all\<close>, panicking on an error.
  \<open>pref_util\<close>, \<open>serde\<close>, \<open>serde_json\<close> and \<open>build_structs\<close> are not among the
  sources: their parts are modelled from the specification.

  \<^bold>\<open>Theories and what they model.\<close>
  \<^item> \<open>Prefs_Prelude\<close>: the machine types (\<open>i64\<close>, \<open>u64\<close>, \<open>usize\<close> and the bits of an
    \<open>f64\<close> as \<open>64 word\<close>), Rust's \<open>collect\<close> into \<open>Result\<close>/\<open>Option\<close>
    (\<open>collect_result\<close>, \<open>collect_option\<close>), \<open>HashMap::from_iter\<close> (\<open>hashmap_of\<close>),
    the collections \<open>result_simps\<close>, \<open>tree_simps\<close> and the list lemmas the others share.
  \<^item> \<open>Json\<close>: \<open>serde_json::Value\<close> and \<open>Number\<close> (\<open>json\<close>, \<open>json_number\<close>), the
    number accessors, \<open>as f64\<close> on integers (\<open>f64_of_int\<close>, round half to even) and
    \<open>Value::from(f64)\<close>.
  \<^item> \<open>PrefValue\<close>: \<open>PrefValue\<close>, \<open>PrefError\<close>, \<open>from_json_value\<close>, \<open>to_json_value\<close>.
  \<^item> \<open>Store\<close>: \<open>Preferences\<close> generic in the schema type: the record \<open>preferences\<close>
    (\<open>user_prefs\<close>, \<open>accessors\<close>), \<open>prefs_get\<close>, \<open>prefs_set\<close>, \<open>prefs_set_all\<close>; the
    accessor contract \<open>table_lawful\<close> (the interface the generated table must meet) and
    the store invariant \<open>prefs_inv\<close>, kept by \<open>set\<close> and \<open>set_all\<close>.
  \<^item> \<open>Schema\<close>: schemas, values of the schema type (\<open>pnode\<close>), the field access of a
    static path (\<open>node_get\<close>, \<open>node_set\<close>), the typing \<open>conforms\<close>, and the generated
    table \<open>pref_accessors\<close> (key = rename, else the dotted path); the table meets the
    contract for every well-formed schema (\<open>pref_accessors_lawful\<close>).
  \<^item> \<open>ServoSchema\<close>: \<open>mod gen\<close> transcribed struct by struct (\<open>schema_browser\<close> to
    \<open>schema_webgl\<close>, \<open>servo_schema\<close> for \<open>struct Pref\<close>), \<open>default_layout_threads\<close>,
    \<open>black\<close>, \<open>white\<close>, and \<open>servo_accessors\<close> for \<open>PREF_ACCESSORS\<close>; the schema is
    checked well formed (distinct field names, distinct keys, 131 leaves) by evaluation.
  \<^item> \<open>Prefs_Module\<close>: \<open>pref!\<close>/\<open>set_pref!\<close> (\<open>pref_static\<close>, \<open>set_pref_static\<close>),
    \<open>read_prefs_map\<close> with its closure \<open>read_pref_entry\<close> and \<open>Iterator::all\<close>
    (\<open>iter_all\<close>), \<open>add_user_prefs\<close>.
  \<^item> \<open>Loader\<close>: the initialiser of \<open>PREFS\<close> (\<open>load_defaults\<close>) over the generated
    deserialisation (\<open>deserialize_field\<close>, \<open>load_leaf\<close>, \<open>load_node\<close>, \<open>load_prefs\<close>)
    and the default suppliers (\<open>default_fn\<close>); \<open>dump_prefs\<close> is the derived \<open>Serialize\<close>.
  \<^item> \<open>Concurrency\<close>: the threads, the \<open>lazy_static\<close> cell and the \<open>RwLock\<close> as the
    inductive step relation \<open>conc_step\<close> (one rule per step of one thread: call,
    initialise, dereference, key lookup, acquire, critical section with release) and the
    reachable states \<open>reach\<close>; the invariant \<open>sys_inv\<close> (lock counts, cell, store);
    the steps left in the calls (\<open>call_measure\<close>, \<open>work_left\<close>).
  \<^item> \<open>ReadableStreamController\<close>: the DOM stub, every method \<open>todo!()\<close>.
  \<^item> this theory: the store over the servo table and its properties.

  \<^bold>\<open>What the properties show\<close> (claims C1 to C30).
  \<^item> The concurrent store (C1, C2, C11 to C17): the lock excludes a writer from every
    other critical section; every reachable store conforms to the schema over the generated
    table; no step changes the store while a read guard is held; a waiting thread can
    obtain its guard; the lazy initialiser runs at most once and a failed one poisons the
    cell for good, after which no thread gets past the dereference; every step inside a
    call decreases the steps it has left, and from every reachable state all started calls
    can complete; one thread's \<open>add_user_prefs\<close> computes the sequential \<open>set_all\<close>.
  \<^item> Set, get and set_all over the servo table (C3, C20 to C25): read-back, type errors,
    unknown keys, independence of keys, first-error semantics and last-entry-wins of
    set_all, typing kept.
  \<^item> User overrides (C4 to C6, C18, C19, C26 to C29): the exact result of
    \<open>read_prefs_map\<close> (arrays collapse to \<open>[]\<close>, a bug of the code) and its consequence
    for array overrides, its failure and error, the round trip of scalars, the integer
    bound, when \<open>add_user_prefs\<close> panics, that its outcome does not depend on the order in
    which the \<open>HashMap\<close> yields the entries, and that a scalar document is applied in full.
  \<^item> Loading the defaults (C7 to C10): every key reads the document's value or its
    default, the exact failure condition, the round trip with serialisation, and the
    leaf-by-leaf specification of the deserialisation.
  \<^item> The generated default \<open>default_layout_threads\<close> and its overflow bound (C30).
  The static macros and the DOM stub are modelled (their definitions are in the map) and
  carry no claims of their own: the macros are the field read and write that the store
  lemmas cover, and every method of the stub is the constant panic of \<open>todo!()\<close>.
  Writes are one atomic step of the step relation (the critical section of a write is a
  single assignment), so what the lock contributes is the exclusion of C1 and the stable
  snapshot of C11; the lemma \<open>add_user_prefs_observed_half_applied\<close> exhibits a run in
  which a reader sees a user override half applied (a finding).

  \<^bold>\<open>Bounds and parameters.\<close> No fuel is used: every function is total (structural
  recursion, or nested recursion through \<open>collect_option\<close>). The number of threads is
  any \<open>n\<close>; the number of processors is a \<open>usize\<close> parameter, and
  \<open>default_layout_threads\<close> is shown exact for fewer than \<open>2^62\<close> processors, where
  \<open>ncpus * 3\<close> does not overflow. Witnesses use the resource obtained by serialising
  the value with every leaf at its type's default, and runs of one or two threads. The
  liveness claim C16 states that a completing run exists; it assumes nothing of the
  scheduler beyond letting that run happen, and its proof is an induction on
  \<open>work_left\<close>, which every step inside a call decreases.

  \<^bold>\<open>Not modelled.\<close> The JSON text parser of \<open>serde_json\<close> (\<open>from_str\<close>; the
  models take the parsed tree, or a parse error): it is library code outside the sources,
  and a faithful model would have to include its correctly rounded decimal-to-binary64
  conversion and its error positions, which nothing in \<open>prefs.rs\<close> depends on beyond
  success or failure; resource loading (\<open>embedder_traits::resources\<close>, I/O); the text of the
  \<open>InvalidValue\<close> message (\<open>format!\<close> with the \<open>Display\<close> of a \<open>Value\<close>, a \<open>serde_json\<close>
  printer; the model keeps the offending value); poisoning of the \<open>RwLock\<close> by a
  panicking writer (no critical section panics); the JavaScript engine behind the DOM
  stub (its values and reflector are opaque). The source lines the map leaves out are
  licence headers, \<open>use\<close> declarations and closing braces.
\<close>

definition servo_default_store :: "pnode preferences" where
  "servo_default_store = preferences_new (default_node (Group [] servo_schema)) servo_accessors"

lemma servo_default_store_conforms:
  "prefs_conform servo_schema (user_prefs servo_default_store)"
  by (simp add: servo_default_store_def preferences_new_def prefs_conform_def conforms_default_node
      del: default_node.simps)

lemma servo_default_store_accessors [simp]: "accessors servo_default_store = servo_accessors"
  by (simp add: servo_default_store_def preferences_new_def)

lemma servo_default_store_inv: "prefs_inv (prefs_conform servo_schema) servo_default_store"
  using servo_store_inv [OF servo_default_store_conforms servo_default_store_accessors] .

section \<open>The store over the servo schema\<close>

text \<open>
  C3: for every key of the table and every value of the key's declared type, \<open>set\<close>
  succeeds, a following \<open>get\<close> returns the value, and the schema value stays well typed.
\<close>

theorem servo_set_then_get:
  assumes conf: "prefs_conform servo_schema (user_prefs s)" and acc: "accessors s = servo_accessors"
    and key: "pref_key_type servo_schema k = Some ty" and tv: "has_type ty v"
  shows "\<exists>s'. prefs_set s k v = (s', Inr ()) \<and> prefs_get s' k = Inr v \<and>
           prefs_conform servo_schema (user_prefs s')"
proof -
  have acc': "accessors s = pref_accessors servo_schema"
    using acc by (simp add: servo_accessors_def)
  have nd: "names_distinct (Group [] servo_schema)"
    using servo_schema_wf by (rule schema_wf_names)
  obtain p where kp: "(k, p, ty) \<in> set (root_leaves servo_schema)"
    using pref_key_type_Some [OF servo_schema_wf key] by blast
  let ?s' = "s\<lparr>user_prefs := node_set p v (user_prefs s)\<rparr>"
  have set: "prefs_set s k v = (?s', Inr ())"
    using schema_store_set [OF servo_schema_wf acc' kp tv] .
  obtain w where "node_get p (user_prefs s) = Some w"
    using root_leaves_readable [OF conf nd kp] by blast
  then have "node_get p (user_prefs ?s') = Some v"
    by (simp add: node_get_node_set_same)
  moreover have "prefs_get ?s' k = Inr (the (node_get p (user_prefs ?s')))"
    using schema_store_get [OF servo_schema_wf _ kp] acc' by simp
  moreover have "prefs_conform servo_schema (user_prefs ?s')"
    using root_leaves_set_conforms [OF conf nd kp tv] by simp
  ultimately show ?thesis
    using set by auto
qed

theorem servo_set_then_get_witness:
  "prefs_conform servo_schema (user_prefs servo_default_store) \<and>
   accessors servo_default_store = servo_accessors \<and>
   pref_key_type servo_schema ''dom.webgpu.enabled'' = Some TyBool \<and> has_type TyBool (Bool True) \<and>
   (\<exists>s'. prefs_set servo_default_store ''dom.webgpu.enabled'' (Bool True) = (s', Inr ()) \<and>
        prefs_get s' ''dom.webgpu.enabled'' = Inr (Bool True) \<and>
        prefs_conform servo_schema (user_prefs s'))"
proof -
  have key: "pref_key_type servo_schema ''dom.webgpu.enabled'' = Some TyBool"
    by code_simp
  show ?thesis
    using servo_set_then_get [OF servo_default_store_conforms servo_default_store_accessors key]
      servo_default_store_conforms key by simp
qed

text \<open>
  C21: setting a key to a value of another kind than the key's declared type fails with
  \<open>TypeMismatch\<close> naming the key and leaves the store unchanged.
\<close>

theorem servo_set_type_mismatch:
  assumes acc: "accessors s = servo_accessors" and key: "pref_key_type servo_schema k = Some ty"
    and bad: "\<not> has_type ty v"
  shows "prefs_set s k v = (s, Inl (TypeMismatch k))"
proof -
  obtain p where kp: "(k, p, ty) \<in> set (root_leaves servo_schema)"
    using pref_key_type_Some [OF servo_schema_wf key] by blast
  show ?thesis
    using schema_store_mismatch [OF servo_schema_wf _ kp bad] acc by (simp add: servo_accessors_def)
qed

theorem servo_set_type_mismatch_witness:
  "accessors servo_default_store = servo_accessors \<and>
   pref_key_type servo_schema ''dom.webgpu.enabled'' = Some TyBool \<and> \<not> has_type TyBool (Str ''on'') \<and>
   prefs_set servo_default_store ''dom.webgpu.enabled'' (Str ''on'') =
     (servo_default_store, Inl (TypeMismatch ''dom.webgpu.enabled''))"
proof -
  have key: "pref_key_type servo_schema ''dom.webgpu.enabled'' = Some TyBool"
    by code_simp
  have bad: "\<not> has_type TyBool (Str ''on'')"
    by simp
  show ?thesis
    using servo_set_type_mismatch [OF servo_default_store_accessors key bad] key bad by simp
qed

text \<open>
  C22: a key that is not in the table is an error, never a crash: \<open>get\<close> returns
  \<open>NoSuchPref\<close> and \<open>set\<close> returns \<open>NoSuchPref\<close> without changing the store.
\<close>

theorem servo_unknown_key:
  assumes "accessors s = servo_accessors" and "pref_key_type servo_schema k = None"
  shows "prefs_get s k = Inl (NoSuchPref k) \<and> prefs_set s k v = (s, Inl (NoSuchPref k))"
proof -
  have acc: "accessors s = pref_accessors servo_schema"
    using assms(1) by (simp add: servo_accessors_def)
  show ?thesis
    using schema_store_unknown [OF acc assms(2)] by simp
qed

theorem servo_unknown_key_witness:
  "accessors servo_default_store = servo_accessors \<and>
   pref_key_type servo_schema ''dom.no-such-pref'' = None \<and>
   prefs_get servo_default_store ''dom.no-such-pref'' = Inl (NoSuchPref ''dom.no-such-pref'') \<and>
   prefs_set servo_default_store ''dom.no-such-pref'' (Bool True) =
     (servo_default_store, Inl (NoSuchPref ''dom.no-such-pref''))"
proof -
  have key: "pref_key_type servo_schema ''dom.no-such-pref'' = None"
    by code_simp
  show ?thesis
    using servo_unknown_key [OF servo_default_store_accessors key] key by simp
qed

text \<open>
  C23: a successful \<open>set\<close> of one key changes no other key: \<open>get\<close> of every other key
  returns what it returned before.
\<close>

theorem servo_set_keeps_other_keys:
  assumes "prefs_conform servo_schema (user_prefs s)" and "accessors s = servo_accessors"
    and "prefs_set s k v = (s', Inr u)" and "k' \<noteq> k"
  shows "prefs_get s' k' = prefs_get s k'"
  using prefs_set_other_gen [OF servo_store_inv [OF assms(1,2)] assms(3,4)] .

theorem servo_set_keeps_other_keys_witness:
  "prefs_conform servo_schema (user_prefs servo_default_store) \<and>
   accessors servo_default_store = servo_accessors \<and>
   prefs_set servo_default_store ''dom.webgpu.enabled'' (Bool True) =
     (fst (prefs_set servo_default_store ''dom.webgpu.enabled'' (Bool True)), Inr ()) \<and>
   ''dom.svg.enabled'' \<noteq> ''dom.webgpu.enabled'' \<and>
   prefs_get (fst (prefs_set servo_default_store ''dom.webgpu.enabled'' (Bool True))) ''dom.svg.enabled'' =
     prefs_get servo_default_store ''dom.svg.enabled''"
proof -
  have "snd (prefs_set servo_default_store ''dom.webgpu.enabled'' (Bool True)) = Inr ()"
    by code_simp
  then have set: "prefs_set servo_default_store ''dom.webgpu.enabled'' (Bool True) =
     (fst (prefs_set servo_default_store ''dom.webgpu.enabled'' (Bool True)), Inr ())"
    by (metis prod.collapse)
  have ne: "''dom.svg.enabled'' \<noteq> ''dom.webgpu.enabled''"
    by simp
  show ?thesis
    using servo_set_keeps_other_keys [OF servo_default_store_conforms servo_default_store_accessors set ne]
      servo_default_store_conforms set ne by simp
qed

text \<open>
  C20: \<open>set_all\<close> on the servo store stops at the first entry the table rejects: after
  entries that are all accepted, an entry whose key is unknown fails with
  \<open>NoSuchPref\<close> and one whose value has the wrong type with \<open>TypeMismatch\<close>; the
  entries before it stay applied and none after it is applied.
\<close>

theorem servo_set_all_first_error:
  assumes "accessors s = servo_accessors" and "list_all (set_accepts servo_schema) kvs"
    and "\<not> set_accepts servo_schema (k, v)"
  shows "prefs_set_all s (kvs @ (k, v) # rest) =
           (fst (prefs_set_all s kvs),
            Inl (if pref_key_type servo_schema k = None then NoSuchPref k else TypeMismatch k))"
proof -
  obtain s1 r where sr: "prefs_set_all s kvs = (s1, r)"
    by fastforce
  have acc: "accessors s = pref_accessors servo_schema"
    using assms(1) by (simp add: servo_accessors_def)
  have "\<not> isl r"
    using schema_set_all_isl [OF servo_schema_wf acc, of kvs] assms(2) sr by simp
  then have r: "r = Inr ()"
    by (cases r) auto
  have acc1: "accessors s1 = pref_accessors servo_schema"
    using prefs_set_all_accessors [of s kvs] sr acc by simp
  have "prefs_set s1 k v =
          (s1, Inl (if pref_key_type servo_schema k = None then NoSuchPref k else TypeMismatch k))"
  proof (cases "pref_key_type servo_schema k")
    case None
    then show ?thesis
      using schema_store_unknown(2) [OF acc1 None] by simp
  next
    case (Some ty)
    then obtain p where leaf: "(k, p, ty) \<in> set (root_leaves servo_schema)"
      using pref_key_type_Some [OF servo_schema_wf] by blast
    have "\<not> has_type ty v"
      using assms(3) Some by (simp add: set_accepts_def)
    then show ?thesis
      using schema_store_mismatch [OF servo_schema_wf acc1 leaf] Some by simp
  qed
  then show ?thesis
    using sr r by (simp add: prefs_set_all_append)
qed

theorem servo_set_all_first_error_witness:
  "accessors servo_default_store = servo_accessors \<and>
   list_all (set_accepts servo_schema) [(''dom.svg.enabled'', Bool True)] \<and>
   \<not> set_accepts servo_schema (''dom.webgpu.enabled'', Str ''yes'') \<and>
   prefs_set_all servo_default_store
       [(''dom.svg.enabled'', Bool True), (''dom.webgpu.enabled'', Str ''yes''), (''dom.gamepad.enabled'', Bool True)] =
     (fst (prefs_set_all servo_default_store [(''dom.svg.enabled'', Bool True)]),
      Inl (TypeMismatch ''dom.webgpu.enabled''))"
proof -
  have ok: "list_all (set_accepts servo_schema) [(''dom.svg.enabled'', Bool True)]"
    by code_simp
  have bad: "\<not> set_accepts servo_schema (''dom.webgpu.enabled'', Str ''yes'')"
    by code_simp
  have ty: "pref_key_type servo_schema ''dom.webgpu.enabled'' \<noteq> None"
    by code_simp
  show ?thesis
    using servo_set_all_first_error [OF servo_default_store_accessors ok bad,
        of "[(''dom.gamepad.enabled'', Bool True)]"] ok bad ty
    by simp
qed

text \<open>
  C24: when \<open>set_all\<close> succeeds on a store over the servo table whose value conforms to the
  schema, every key reads the value of its last entry, whatever entries came before it.
\<close>

theorem servo_set_all_reads_last_value:
  assumes "prefs_conform servo_schema (user_prefs s)" and "accessors s = servo_accessors"
    and "prefs_set_all s kvs = (s', Inr u)" and "map_of (rev kvs) k = Some v"
  shows "prefs_get s' k = Inr v"
  using prefs_set_all_reads_last [OF servo_store_inv [OF assms(1,2)] assms(3,4)] .

theorem servo_set_all_reads_last_value_witness:
  "prefs_conform servo_schema (user_prefs servo_default_store) \<and>
   accessors servo_default_store = servo_accessors \<and>
   prefs_set_all servo_default_store [(''dom.svg.enabled'', Bool True), (''dom.svg.enabled'', Bool False)] =
     (fst (prefs_set_all servo_default_store
            [(''dom.svg.enabled'', Bool True), (''dom.svg.enabled'', Bool False)]), Inr ()) \<and>
   map_of (rev [(''dom.svg.enabled'', Bool True), (''dom.svg.enabled'', Bool False)]) ''dom.svg.enabled'' =
     Some (Bool False) \<and>
   prefs_get (fst (prefs_set_all servo_default_store
       [(''dom.svg.enabled'', Bool True), (''dom.svg.enabled'', Bool False)])) ''dom.svg.enabled'' =
     Inr (Bool False)"
proof -
  let ?kvs = "[(''dom.svg.enabled'', Bool True), (''dom.svg.enabled'', Bool False)]"
  have "snd (prefs_set_all servo_default_store ?kvs) = Inr ()"
    by code_simp
  then have h: "prefs_set_all servo_default_store ?kvs = (fst (prefs_set_all servo_default_store ?kvs), Inr ())"
    by (metis prod.collapse)
  have m: "map_of (rev ?kvs) ''dom.svg.enabled'' = Some (Bool False)"
    by simp
  show ?thesis
    using servo_set_all_reads_last_value [OF servo_default_store_conforms servo_default_store_accessors h m]
      servo_default_store_conforms h m by simp
qed

text \<open>
  C25: \<open>set_all\<close> keeps the schema value well typed, whatever entries it is given and
  whether it succeeds or stops at an error.
\<close>

theorem servo_set_all_keeps_typing:
  assumes "prefs_conform servo_schema (user_prefs s)" and "accessors s = servo_accessors"
  shows "prefs_conform servo_schema (user_prefs (fst (prefs_set_all s kvs)))"
  using prefs_set_all_preserves_inv_gen [OF servo_store_inv [OF assms]] by (simp add: prefs_inv_def)

theorem servo_set_all_keeps_typing_witness:
  "prefs_conform servo_schema (user_prefs servo_default_store) \<and>
   accessors servo_default_store = servo_accessors \<and>
   prefs_conform servo_schema
     (user_prefs (fst (prefs_set_all servo_default_store [(''dom.svg.enabled'', IntV 1)])))"
  by (intro conjI servo_default_store_conforms servo_default_store_accessors
      servo_set_all_keeps_typing [OF servo_default_store_conforms servo_default_store_accessors])

section \<open>The user overrides on the servo store\<close>

lemma servo_default_store_table: "accessors servo_default_store = pref_accessors servo_schema"
  by (simp add: servo_accessors_def)

theorem add_user_prefs_panics_iff_witness:
  "schema_wf servo_schema \<and> accessors servo_default_store = pref_accessors servo_schema \<and>
   (add_user_prefs servo_default_store [(''dom.svg.enabled'', Bool True), (''dom.svg.enabled'', Str ''x'')] = None \<longleftrightarrow>
      \<not> list_all (set_accepts servo_schema) [(''dom.svg.enabled'', Bool True), (''dom.svg.enabled'', Str ''x'')]) \<and>
   add_user_prefs servo_default_store [(''dom.svg.enabled'', Bool True), (''dom.svg.enabled'', Str ''x'')] = None"
proof -
  have "\<not> list_all (set_accepts servo_schema) [(''dom.svg.enabled'', Bool True), (''dom.svg.enabled'', Str ''x'')]"
    by code_simp
  then show ?thesis
    using add_user_prefs_panics_iff [OF servo_schema_wf servo_default_store_table,
        of "[(''dom.svg.enabled'', Bool True), (''dom.svg.enabled'', Str ''x'')]"]
      servo_schema_wf servo_default_store_table by simp
qed

theorem add_user_prefs_order_independent_witness:
  "schema_wf servo_schema \<and> accessors servo_default_store = pref_accessors servo_schema \<and>
   distinct (map fst [(''dom.svg.enabled'', Bool True), (''layout.threads'', IntV 4)]) \<and>
   mset [(''dom.svg.enabled'', Bool True), (''layout.threads'', IntV 4)] =
     mset [(''layout.threads'', IntV 4), (''dom.svg.enabled'', Bool True)] \<and>
   add_user_prefs servo_default_store [(''dom.svg.enabled'', Bool True), (''layout.threads'', IntV 4)] =
     add_user_prefs servo_default_store [(''layout.threads'', IntV 4), (''dom.svg.enabled'', Bool True)]"
  using add_user_prefs_order_independent [OF servo_schema_wf servo_default_store_table,
      of "[(''dom.svg.enabled'', Bool True), (''layout.threads'', IntV 4)]"
         "[(''layout.threads'', IntV 4), (''dom.svg.enabled'', Bool True)]"]
    servo_schema_wf servo_default_store_table
  by (simp del: prefs_set_all.simps)

theorem user_overrides_applied_witness:
  "prefs_conform servo_schema (user_prefs servo_default_store) \<and> accessors servo_default_store = servo_accessors \<and>
   read_prefs_map (Some [(''dom.svg.enabled'', JBool True), (''layout.threads'', JNumber (PosInt 4))]) =
     Inr [(''dom.svg.enabled'', Bool True), (''layout.threads'', IntV 4)] \<and>
   distinct (map fst [(''dom.svg.enabled'', JBool True), (''layout.threads'', JNumber (PosInt 4))]) \<and>
   from_json_value (JBool True) = Some (Bool True) \<and> set_accepts servo_schema (''dom.svg.enabled'', Bool True) \<and>
   from_json_value (JNumber (PosInt 4)) = Some (IntV 4) \<and> set_accepts servo_schema (''layout.threads'', IntV 4) \<and>
   (\<exists>s'. add_user_prefs servo_default_store [(''dom.svg.enabled'', Bool True), (''layout.threads'', IntV 4)] = Some s' \<and>
      prefs_get s' ''dom.svg.enabled'' = Inr (Bool True) \<and> prefs_get s' ''layout.threads'' = Inr (IntV 4))"
proof -
  have rd: "read_prefs_map (Some [(''dom.svg.enabled'', JBool True), (''layout.threads'', JNumber (PosInt 4))]) =
     Inr [(''dom.svg.enabled'', Bool True), (''layout.threads'', IntV 4)]"
    by code_simp
  have a1: "set_accepts servo_schema (''dom.svg.enabled'', Bool True)"
    and a2: "set_accepts servo_schema (''layout.threads'', IntV 4)"
    and fj: "from_json_value (JNumber (PosInt 4)) = Some (IntV 4)"
    by code_simp+
  have ok: "\<forall>e \<in> set [(''dom.svg.enabled'', JBool True), (''layout.threads'', JNumber (PosInt 4))].
      \<exists>v. from_json_value (snd e) = Some v \<and> (\<forall>xs. v \<noteq> Array xs) \<and> set_accepts servo_schema (fst e, v)"
    using a1 a2 fj by simp
  show ?thesis
    using user_overrides_applied [OF servo_default_store_conforms servo_default_store_accessors rd _ ok]
      servo_default_store_conforms rd a1 a2 fj
    by simp
qed

theorem array_override_panics_witness:
  "schema_wf servo_schema \<and> accessors servo_default_store = pref_accessors servo_schema \<and>
   pref_key_type servo_schema ''shell.background-color.rgba'' = Some (TyF64Array 4) \<and> (0::nat) < 4 \<and>
   list_all (\<lambda>j. from_json_value j \<noteq> None) [JNumber (JFloat 0), JNumber (JFloat 0), JNumber (JFloat 0), JNumber (JFloat 0x3FF0000000000000)] \<and>
   read_prefs_map (Some [(''shell.background-color.rgba'', JArray [JNumber (JFloat 0), JNumber (JFloat 0), JNumber (JFloat 0), JNumber (JFloat 0x3FF0000000000000)])]) =
     Inr [(''shell.background-color.rgba'', Array [])] \<and>
   add_user_prefs servo_default_store [(''shell.background-color.rgba'', Array [])] = None"
proof -
  have ty: "pref_key_type servo_schema ''shell.background-color.rgba'' = Some (TyF64Array 4)"
    by code_simp
  have js: "list_all (\<lambda>j. from_json_value j \<noteq> None) [JNumber (JFloat 0), JNumber (JFloat 0), JNumber (JFloat 0), JNumber (JFloat 0x3FF0000000000000)]"
    by (simp add: number_is_i64_def number_is_f64_def number_as_f64_def)
  show ?thesis
    using array_override_panics [OF servo_schema_wf servo_default_store_table ty _ js]
      servo_schema_wf servo_default_store_table ty js by simp
qed

end
